theory Spec2Isabelle
  imports Complex_Main "HOL-Library.Word" "HOL-Library.Sublist"
begin

section \<open>JavaScript strings and numbers\<close>

text \<open>
  A JavaScript string is a sequence of 16-bit code units; \<open>input[position]\<close> and
  \<open>input.length\<close> count code units.  String literals of the source are written with
  \<open>js\<close>, which maps every ASCII character to its code unit.
\<close>

type_synonym jschar = "16 word"
type_synonym jsstring = "jschar list"

definition js :: "string \<Rightarrow> jsstring" where
  "js s = map of_char s"

definition ESC :: jschar where "ESC = 0x1B"
definition LBRACKET :: jschar where "LBRACKET = 0x5B"
definition LETTER_m :: jschar where "LETTER_m = 0x6D"
definition SEMICOLON :: jschar where "SEMICOLON = 0x3B"

text \<open>
  The value of a JavaScript number: a finite double (kept as the rational it denotes,
  \<open>-0\<close> and \<open>+0\<close> both as \<open>0\<close>: the code below never tells them apart), the two
  infinities, or NaN.
\<close>

datatype jsnum = NaN | Num rat | PosInf | NegInf

definition strictEq :: "jsnum \<Rightarrow> rat \<Rightarrow> bool" where
  "strictEq x k = (case x of Num q \<Rightarrow> q = k | _ \<Rightarrow> False)"

definition greaterEq :: "jsnum \<Rightarrow> rat \<Rightarrow> bool" where
  "greaterEq x k = (case x of Num q \<Rightarrow> k \<le> q | PosInf \<Rightarrow> True | _ \<Rightarrow> False)"

definition lessEq :: "jsnum \<Rightarrow> rat \<Rightarrow> bool" where
  "lessEq x k = (case x of Num q \<Rightarrow> q \<le> k | NegInf \<Rightarrow> True | _ \<Rightarrow> False)"

text \<open>
  \<open>code - k\<close>.  The parsers subtract only inside the guards \<open>30..37\<close>, \<open>90..97\<close>,
  \<open>40..47\<close> and \<open>100..107\<close>, where the difference of two doubles is itself a double,
  so the rational difference is the result.
\<close>

definition subtract :: "jsnum \<Rightarrow> rat \<Rightarrow> jsnum" where
  "subtract x k = (case x of Num q \<Rightarrow> Num (q - k) | y \<Rightarrow> y)"

subsection \<open>\<open>String.prototype.trim\<close> and \<open>String.prototype.split\<close>\<close>

text \<open>White space and line terminators of ECMAScript, as code units.\<close>

definition isStrWhiteSpaceChar :: "jschar \<Rightarrow> bool" where
  "isStrWhiteSpaceChar c = (c \<in> set [0x09, 0x0A, 0x0B, 0x0C, 0x0D, 0x20, 0xA0, 0x1680,
     0x2000, 0x2001, 0x2002, 0x2003, 0x2004, 0x2005, 0x2006, 0x2007, 0x2008, 0x2009, 0x200A,
     0x2028, 0x2029, 0x202F, 0x205F, 0x3000, 0xFEFF])"

definition trim :: "jsstring \<Rightarrow> jsstring" where
  "trim s = rev (dropWhile isStrWhiteSpaceChar (rev (dropWhile isStrWhiteSpaceChar s)))"

text \<open>\<open>s.split(sep)\<close> for a one-character separator: never empty, \<open>''.split(';')\<close> is \<open>['']\<close>.\<close>

fun split :: "jschar \<Rightarrow> jsstring \<Rightarrow> jsstring list" where
  "split sep [] = [[]]"
| "split sep (c # cs) =
     (if c = sep then [] # split sep cs
      else (case split sep cs of [] \<Rightarrow> [[c]] | x # xs \<Rightarrow> (c # x) # xs))"

subsection \<open>\<open>Number(string)\<close>\<close>

text \<open>
  The conversion of ECMAScript (StringToNumber): the trimmed text is empty (value 0), a
  decimal literal with optional sign, fraction and exponent, \<open>Infinity\<close> with optional sign,
  or an unsigned binary, octal or hexadecimal integer literal; anything else is NaN.  The
  mathematical value is rounded to the nearest double, ties to even (the standard lets an
  engine shorten a literal of more than 20 significant digits first; the exact rounding is
  taken here).
\<close>

function bitLength :: "int \<Rightarrow> nat" where
  "bitLength n = (if n \<le> 0 then 0 else Suc (bitLength (n div 2)))"
  by pat_completeness auto
termination
  by (relation "measure nat") auto

declare bitLength.simps [simp del]

definition pow2 :: "int \<Rightarrow> rat" where
  "pow2 e = (if 0 \<le> e then of_int (2 ^ nat e) else 1 / of_int (2 ^ nat (- e)))"

text \<open>\<open>floorLog2 n d\<close> is the integer \<open>k\<close> with \<open>2^k \<le> n / d < 2^(k+1)\<close>, for \<open>n, d > 0\<close>.\<close>

definition floorLog2 :: "int \<Rightarrow> int \<Rightarrow> int" where
  "floorLog2 n d =
     (let k = int (bitLength n) - int (bitLength d)
      in if (if 0 \<le> k then 2 ^ nat k * d \<le> n else d \<le> 2 ^ nat (- k) * n) then k else k - 1)"

text \<open>\<open>p / q\<close> rounded to the nearest integer, a tie to the even one.\<close>

definition roundHalfEven :: "int \<Rightarrow> int \<Rightarrow> int" where
  "roundHalfEven p q =
     (let f = p div q; r = p mod q
      in if 2 * r < q then f else if q < 2 * r then f + 1 else if even f then f else f + 1)"

text \<open>
  \<open>toDouble neg n d\<close> is the double nearest to \<open>n / d\<close> (negated when \<open>neg\<close>), for
  \<open>n \<ge> 0\<close> and \<open>d > 0\<close>: 53 significant bits, the exponent not below that of the
  subnormal numbers, an infinity from \<open>2^1024\<close> on.
\<close>

definition toDouble :: "bool \<Rightarrow> int \<Rightarrow> int \<Rightarrow> jsnum" where
  "toDouble neg n d =
     (if n = 0 then Num 0
      else
        let e = max (floorLog2 n d) (- 1022) - 52;
            m = (if 0 \<le> e then roundHalfEven n (d * 2 ^ nat e)
                 else roundHalfEven (n * 2 ^ nat (- e)) d);
            v = of_int m * pow2 e
        in if of_int (2 ^ 1024) \<le> v then (if neg then NegInf else PosInf)
           else Num (if neg then - v else v))"

definition isDigit :: "jschar \<Rightarrow> bool" where
  "isDigit c = (0x30 \<le> c \<and> c \<le> 0x39)"

definition digitValue :: "jschar \<Rightarrow> int option" where
  "digitValue c =
     (if 0x30 \<le> c \<and> c \<le> 0x39 then Some (uint (c - 0x30))
      else if 0x61 \<le> c \<and> c \<le> 0x66 then Some (uint (c - 0x61) + 10)
      else if 0x41 \<le> c \<and> c \<le> 0x46 then Some (uint (c - 0x41) + 10)
      else None)"

text \<open>The value of a digit string in a radix; None when a character is no digit of it.\<close>

fun digitsValue :: "int \<Rightarrow> int \<Rightarrow> jsstring \<Rightarrow> int option" where
  "digitsValue radix acc [] = Some acc"
| "digitsValue radix acc (c # cs) =
     (case digitValue c of
        None \<Rightarrow> None
      | Some v \<Rightarrow> if v < radix then digitsValue radix (radix * acc + v) cs else None)"

definition nonDecimalIntegerLiteral :: "jsstring \<Rightarrow> int option" where
  "nonDecimalIntegerLiteral t =
     (case t of
        z # x # ds \<Rightarrow>
          if z = 0x30 \<and> ds \<noteq> [] then
            (if x = 0x78 \<or> x = 0x58 then digitsValue 16 0 ds
             else if x = 0x6F \<or> x = 0x4F then digitsValue 8 0 ds
             else if x = 0x62 \<or> x = 0x42 then digitsValue 2 0 ds
             else None)
          else None
      | _ \<Rightarrow> None)"

text \<open>The exponent part: empty, or \<open>e\<close>/\<open>E\<close>, an optional sign and at least one digit.\<close>

definition exponentPart :: "jsstring \<Rightarrow> int option" where
  "exponentPart r =
     (case r of
        [] \<Rightarrow> Some 0
      | c # r1 \<Rightarrow>
          if c = 0x65 \<or> c = 0x45 then
            (let neg = (r1 \<noteq> [] \<and> hd r1 = 0x2D);
                 ds = (if r1 \<noteq> [] \<and> (hd r1 = 0x2B \<or> hd r1 = 0x2D) then tl r1 else r1)
             in if ds = [] then None
                else (case digitsValue 10 0 ds of
                        None \<Rightarrow> None
                      | Some v \<Rightarrow> Some (if neg then - v else v)))
          else None)"

text \<open>
  An unsigned decimal literal: \<open>Infinity\<close>, or digits with an optional fraction (at least
  one digit before or after the point) and an optional exponent part.
\<close>

definition strUnsignedDecimalLiteral :: "bool \<Rightarrow> jsstring \<Rightarrow> jsnum" where
  "strUnsignedDecimalLiteral neg u =
     (if u = js ''Infinity'' then (if neg then NegInf else PosInf)
      else
        let ip = takeWhile isDigit u;
            r1 = dropWhile isDigit u;
            dot = (r1 \<noteq> [] \<and> hd r1 = 0x2E);
            fp = (if dot then takeWhile isDigit (tl r1) else []);
            r2 = (if dot then dropWhile isDigit (tl r1) else r1)
        in if ip = [] \<and> fp = [] then NaN
           else (case (digitsValue 10 0 (ip @ fp), exponentPart r2) of
                   (Some ds, Some ex) \<Rightarrow>
                     (let sc = ex - int (length fp)
                      in if 0 \<le> sc then toDouble neg (ds * 10 ^ nat sc) 1
                         else toDouble neg ds (10 ^ nat (- sc)))
                 | _ \<Rightarrow> NaN))"

definition Number :: "jsstring \<Rightarrow> jsnum" where
  "Number s =
     (let t = trim s
      in if t = [] then Num 0
         else (case nonDecimalIntegerLiteral t of
                 Some n \<Rightarrow> toDouble False n 1
               | None \<Rightarrow>
                   if hd t = 0x2B then strUnsignedDecimalLiteral False (tl t)
                   else if hd t = 0x2D then strUnsignedDecimalLiteral True (tl t)
                   else strUnsignedDecimalLiteral False t))"

section \<open>The output formatter: \<open>components/AnsiParser.tsx\<close>\<close>

text \<open>
  A colour value of a style: a literal string of the palette, \<open>undefined\<close> (what the palette
  object returns for a key it does not have), or the template strings
  \<open>var(--ansi-${n})\<close> and \<open>var(--ansi-bg-${n})\<close> of the themed parser, kept with their number.
\<close>

datatype cssvalue = Undefined | Literal string | AnsiVar jsnum | AnsiBgVar jsnum

text \<open>
  \<open>interface SpanStyle\<close>: every property is optional.  \<open>fontWeight\<close>, \<open>fontStyle\<close> and
  \<open>textDecoration\<close> have one possible value each (\<open>'bold'\<close>, \<open>'italic'\<close>, \<open>'underline'\<close>), so
  they are present or absent; a colour is absent (\<open>None\<close>) or has a value.
\<close>

record SpanStyle =
  fontWeight :: bool
  fontStyle :: bool
  textDecoration :: bool
  color :: "cssvalue option"
  backgroundColor :: "cssvalue option"

record Span =
  span_text :: jsstring
  span_style :: SpanStyle

text \<open>The object literal \<open>{}\<close> as a style.\<close>

definition emptyStyle :: SpanStyle where
  "emptyStyle = \<lparr>fontWeight = False, fontStyle = False, textDecoration = False,
     color = None, backgroundColor = None\<rparr>"

definition ANSI_COLORS :: "(nat \<times> string) list" where
  "ANSI_COLORS =
     [(0, ''#000000''), (1, ''#d16969''), (2, ''#b5cea8''), (3, ''#d7ba7d''),
      (4, ''#569cd6''), (5, ''#c586c0''), (6, ''#9cdcfe''), (7, ''#d4d4d4''),
      (8, ''#808080''), (9, ''#d16969''), (10, ''#b5cea8''), (11, ''#d7ba7d''),
      (12, ''#569cd6''), (13, ''#c586c0''), (14, ''#9cdcfe''), (15, ''#ffffff'')]"

text \<open>
  \<open>ANSI_COLORS[k]\<close>: the property whose key is the decimal string of \<open>k\<close>, so a value only
  for the integers \<open>0..15\<close>, and \<open>undefined\<close> otherwise.
\<close>

definition paletteAt :: "jsnum \<Rightarrow> cssvalue" where
  "paletteAt k =
     (case k of
        Num q \<Rightarrow>
          if 0 \<le> q \<and> of_int \<lfloor>q\<rfloor> = q then
            (case map_of ANSI_COLORS (nat \<lfloor>q\<rfloor>) of Some c \<Rightarrow> Literal c | None \<Rightarrow> Undefined)
          else Undefined
      | _ \<Rightarrow> Undefined)"

text \<open>The body of the \<open>for\<close> loop over the codes of one escape sequence.\<close>

definition applyCode :: "SpanStyle \<Rightarrow> jsnum \<Rightarrow> SpanStyle" where
  "applyCode st code =
     (if strictEq code 0 then emptyStyle
      else if strictEq code 1 then st\<lparr>fontWeight := True\<rparr>
      else if strictEq code 3 then st\<lparr>fontStyle := True\<rparr>
      else if strictEq code 4 then st\<lparr>textDecoration := True\<rparr>
      else if greaterEq code 30 \<and> lessEq code 37 then
        st\<lparr>color := Some (paletteAt (subtract code 30))\<rparr>
      else if greaterEq code 90 \<and> lessEq code 97 then
        st\<lparr>color := Some (paletteAt (subtract code 82))\<rparr>
      else if greaterEq code 40 \<and> lessEq code 47 then
        st\<lparr>backgroundColor := Some (paletteAt (subtract code 40))\<rparr>
      else if greaterEq code 100 \<and> lessEq code 107 then
        st\<lparr>backgroundColor := Some (paletteAt (subtract code 92))\<rparr>
      else st)"

fun applyCodes :: "SpanStyle \<Rightarrow> jsnum list \<Rightarrow> SpanStyle" where
  "applyCodes st [] = st"
| "applyCodes st (code # codes) = applyCodes (applyCode st code) codes"

text \<open>The inner \<open>while\<close> loop: collect the code body up to the next \<open>m\<close> or the end.\<close>

function collectCode :: "jsstring \<Rightarrow> nat \<Rightarrow> jsstring \<Rightarrow> nat \<times> jsstring" where
  "collectCode input position code =
     (if position < length input \<and> input ! position \<noteq> LETTER_m
      then collectCode input (position + 1) (code @ [input ! position])
      else (position, code))"
  by pat_completeness auto
termination
  by (relation "measure (\<lambda>(input, position, code). length input - position)") auto

declare collectCode.simps [simp del]

lemma collectCode_position: "position \<le> fst (collectCode input position code)"
proof (induction input position code rule: collectCode.induct)
  case (1 input position code)
  show ?case
  proof (cases "position < length input \<and> input ! position \<noteq> LETTER_m")
    case True
    with "1.IH" have "position + 1 \<le> fst (collectCode input (position + 1) (code @ [input ! position]))"
      by simp
    with True show ?thesis
      by (subst collectCode.simps) simp
  next
    case False
    then show ?thesis
      by (subst collectCode.simps) auto
  qed
qed

text \<open>
  The outer \<open>while\<close> loop of \<open>parseAnsi\<close>, with the variables \<open>position\<close>, \<open>result\<close> and
  \<open>currentSpan\<close>.  A pushed span is a copy and the span that follows it gets a copy of the
  style, so a later assignment to \<open>currentSpan.style\<close> changes no span already pushed.
\<close>

function parseLoop :: "jsstring \<Rightarrow> nat \<Rightarrow> Span list \<Rightarrow> Span \<Rightarrow> Span list \<times> Span" where
  "parseLoop input position result currentSpan =
     (if position < length input then
        (if input ! position = ESC \<and> position + 1 < length input
            \<and> input ! (position + 1) = LBRACKET
         then
           (let pushed = (span_text currentSpan \<noteq> []);
                result1 = (if pushed then result @ [currentSpan] else result);
                currentSpan1 =
                  (if pushed then \<lparr>span_text = [], span_style = span_style currentSpan\<rparr>
                   else currentSpan);
                scanned = collectCode input (position + 2) [];
                codes = map Number (split SEMICOLON (snd scanned))
            in parseLoop input (fst scanned + 1) result1
                 (currentSpan1\<lparr>span_style := applyCodes (span_style currentSpan1) codes\<rparr>))
         else parseLoop input (position + 1) result
                (currentSpan\<lparr>span_text := span_text currentSpan @ [input ! position]\<rparr>))
      else (result, currentSpan))"
  by pat_completeness auto
termination
proof (relation "measure (\<lambda>(input, position, result, currentSpan). length input - position)")
  show "wf (measure (\<lambda>(input, position, result, currentSpan). length input - position))"
    by simp
next
  fix input :: jsstring and position :: nat and result :: "Span list" and currentSpan :: Span
    and pushed result1 currentSpan1 and scanned :: "nat \<times> jsstring" and codes :: "jsnum list"
  assume "position < length input" and "scanned = collectCode input (position + 2) []"
  moreover have "position + 2 \<le> fst (collectCode input (position + 2) [])"
    by (rule collectCode_position)
  ultimately show "((input, fst scanned + 1, result1,
        currentSpan1\<lparr>span_style := applyCodes (span_style currentSpan1) codes\<rparr>),
      input, position, result, currentSpan)
    \<in> measure (\<lambda>(input, position, result, currentSpan). length input - position)"
    by simp
next
  fix input :: jsstring and position :: nat and result :: "Span list" and currentSpan :: Span
  assume "position < length input"
  then show "((input, position + 1, result,
        currentSpan\<lparr>span_text := span_text currentSpan @ [input ! position]\<rparr>),
      input, position, result, currentSpan)
    \<in> measure (\<lambda>(input, position, result, currentSpan). length input - position)"
    by simp
qed

declare parseLoop.simps [simp del]

definition parseAnsi :: "jsstring \<Rightarrow> Span list" where
  "parseAnsi input =
     (let (result, currentSpan) = parseLoop input 0 [] \<lparr>span_text = [], span_style = emptyStyle\<rparr>
      in if span_text currentSpan \<noteq> [] then result @ [currentSpan] else result)"

section \<open>The themed formatter (the second \<open>AnsiParser\<close> component)\<close>

text \<open>
  The themed component has the same loops; its colours are the template strings
  \<open>var(--ansi-${code - 30})\<close>, \<open>var(--ansi-${code - 82})\<close>, \<open>var(--ansi-bg-${code - 40})\<close>
  and \<open>var(--ansi-bg-${code - 92})\<close>.
\<close>

definition applyCode_themed :: "SpanStyle \<Rightarrow> jsnum \<Rightarrow> SpanStyle" where
  "applyCode_themed st code =
     (if strictEq code 0 then emptyStyle
      else if strictEq code 1 then st\<lparr>fontWeight := True\<rparr>
      else if strictEq code 3 then st\<lparr>fontStyle := True\<rparr>
      else if strictEq code 4 then st\<lparr>textDecoration := True\<rparr>
      else if greaterEq code 30 \<and> lessEq code 37 then
        st\<lparr>color := Some (AnsiVar (subtract code 30))\<rparr>
      else if greaterEq code 90 \<and> lessEq code 97 then
        st\<lparr>color := Some (AnsiVar (subtract code 82))\<rparr>
      else if greaterEq code 40 \<and> lessEq code 47 then
        st\<lparr>backgroundColor := Some (AnsiBgVar (subtract code 40))\<rparr>
      else if greaterEq code 100 \<and> lessEq code 107 then
        st\<lparr>backgroundColor := Some (AnsiBgVar (subtract code 92))\<rparr>
      else st)"

fun applyCodes_themed :: "SpanStyle \<Rightarrow> jsnum list \<Rightarrow> SpanStyle" where
  "applyCodes_themed st [] = st"
| "applyCodes_themed st (code # codes) = applyCodes_themed (applyCode_themed st code) codes"

function parseLoop_themed ::
  "jsstring \<Rightarrow> nat \<Rightarrow> Span list \<Rightarrow> Span \<Rightarrow> Span list \<times> Span" where
  "parseLoop_themed input position result currentSpan =
     (if position < length input then
        (if input ! position = ESC \<and> position + 1 < length input
            \<and> input ! (position + 1) = LBRACKET
         then
           (let pushed = (span_text currentSpan \<noteq> []);
                result1 = (if pushed then result @ [currentSpan] else result);
                currentSpan1 =
                  (if pushed then \<lparr>span_text = [], span_style = span_style currentSpan\<rparr>
                   else currentSpan);
                scanned = collectCode input (position + 2) [];
                codes = map Number (split SEMICOLON (snd scanned))
            in parseLoop_themed input (fst scanned + 1) result1
                 (currentSpan1\<lparr>span_style := applyCodes_themed (span_style currentSpan1) codes\<rparr>))
         else parseLoop_themed input (position + 1) result
                (currentSpan\<lparr>span_text := span_text currentSpan @ [input ! position]\<rparr>))
      else (result, currentSpan))"
  by pat_completeness auto
termination
proof (relation "measure (\<lambda>(input, position, result, currentSpan). length input - position)")
  show "wf (measure (\<lambda>(input, position, result, currentSpan). length input - position))"
    by simp
next
  fix input :: jsstring and position :: nat and result :: "Span list" and currentSpan :: Span
    and pushed result1 currentSpan1 and scanned :: "nat \<times> jsstring" and codes :: "jsnum list"
  assume "position < length input" and "scanned = collectCode input (position + 2) []"
  moreover have "position + 2 \<le> fst (collectCode input (position + 2) [])"
    by (rule collectCode_position)
  ultimately show "((input, fst scanned + 1, result1,
        currentSpan1\<lparr>span_style := applyCodes_themed (span_style currentSpan1) codes\<rparr>),
      input, position, result, currentSpan)
    \<in> measure (\<lambda>(input, position, result, currentSpan). length input - position)"
    by simp
next
  fix input :: jsstring and position :: nat and result :: "Span list" and currentSpan :: Span
  assume "position < length input"
  then show "((input, position + 1, result,
        currentSpan\<lparr>span_text := span_text currentSpan @ [input ! position]\<rparr>),
      input, position, result, currentSpan)
    \<in> measure (\<lambda>(input, position, result, currentSpan). length input - position)"
    by simp
qed

declare parseLoop_themed.simps [simp del]

definition parseAnsi_themed :: "jsstring \<Rightarrow> Span list" where
  "parseAnsi_themed input =
     (let (result, currentSpan) =
            parseLoop_themed input 0 [] \<lparr>span_text = [], span_style = emptyStyle\<rparr>
      in if span_text currentSpan \<noteq> [] then result @ [currentSpan] else result)"

section \<open>The console page: \<open>pages/[server]/Console.tsx\<close>\<close>

subsection \<open>The socket\<close>

text \<open>
  A \<open>WebSocket\<close> object of the host: its \<open>readyState\<close> and the frames it has put on the
  wire.  A frame is the JSON text that \<open>JSON.stringify\<close> makes of
  \<open>{event: 'send_command', data: command}\<close> or \<open>{event: 'power_action', data: {action}}\<close>,
  kept as a term.
\<close>

datatype readyState = CONNECTING | OPEN | CLOSING | CLOSED

datatype powerAction = Start | Stop | Restart

datatype frame = SendCommand jsstring | PowerAction powerAction

datatype js_exception = SyntaxError | InvalidStateError

record WebSocket =
  readyState :: readyState
  transmitted :: "frame list"

text \<open>\<open>ws.close()\<close>: a connecting or open socket starts closing, any other is left alone.\<close>

definition ws_close :: "WebSocket \<Rightarrow> WebSocket" where
  "ws_close ws =
     (case readyState ws of
        CONNECTING \<Rightarrow> ws\<lparr>readyState := CLOSING\<rparr>
      | OPEN \<Rightarrow> ws\<lparr>readyState := CLOSING\<rparr>
      | _ \<Rightarrow> ws)"

text \<open>
  \<open>ws.send(data)\<close>: throws \<open>InvalidStateError\<close> while connecting, transmits when open, and
  silently discards the data when closing or closed.
\<close>

definition ws_send :: "frame \<Rightarrow> WebSocket \<Rightarrow> js_exception + WebSocket" where
  "ws_send f ws =
     (case readyState ws of
        CONNECTING \<Rightarrow> Inl InvalidStateError
      | OPEN \<Rightarrow> Inr (ws\<lparr>transmitted := transmitted ws @ [f]\<rparr>)
      | _ \<Rightarrow> Inr ws)"

text \<open>
  The message of the host's exception objects (\<open>err.message\<close>) and their string form
  (\<open>`${error}`\<close>).  The wording is the host's (Chromium's for \<open>InvalidStateError\<close>, a
  placeholder for \<open>SyntaxError\<close>, which the page never displays); no property below depends
  on it.
\<close>

definition exceptionMessage :: "js_exception \<Rightarrow> jsstring" where
  "exceptionMessage e =
     (case e of
        SyntaxError \<Rightarrow> js ''Unexpected token''
      | InvalidStateError \<Rightarrow>
          js ''Failed to execute 'send' on 'WebSocket': Still in CONNECTING state.'')"


subsection \<open>The interfaces and the component state\<close>

text \<open>
  \<open>interface ServerDetails\<close>, with the fields the console logic reads; the remaining
  fields of the interface are only displayed.
\<close>

record ServerDetails =
  internalId :: jsstring
  name :: jsstring
  state :: jsstring

text \<open>
  \<open>interface ConsoleMessage\<close>.  Every field of \<open>data\<close> is optional; its field \<open>state\<close> is
  \<open>data_state\<close> here, and the memory and network objects are records of their own.
\<close>

record MemoryStats =
  used :: jsnum
  limit :: jsnum
  percent :: jsnum

record NetworkData =
  rx_bytes :: jsnum
  tx_bytes :: jsnum

record ConsoleData =
  message :: "jsstring option"
  status :: "jsstring option"
  data_state :: "jsstring option"
  logs :: "jsstring list option"
  action :: "jsstring option"
  cpu_percent :: "jsnum option"
  memory :: "MemoryStats option"
  network :: "NetworkData option"

record ConsoleMessage =
  event :: jsstring
  data :: ConsoleData

record NetworkStats =
  rxBytes :: jsnum
  txBytes :: jsnum

record LiveStats =
  cpuPercent :: jsnum
  stats_memory :: MemoryStats
  stats_network :: NetworkStats

text \<open>
  The state of \<open>ServerConsolePage\<close>: the \<open>useState\<close> variables, the ref \<open>wsRef\<close> (the index
  of a socket in \<open>sockets\<close>, the list of all \<open>WebSocket\<close> objects made so far), the number of
  pending \<open>setTimeout\<close> callbacks of \<open>ws.onclose\<close>, and the token in \<open>localStorage\<close>.
\<close>

record Console =
  server :: "ServerDetails option"
  error :: "jsstring option"
  messages :: "jsstring list"
  command :: jsstring
  connected :: bool
  powerLoading :: bool
  liveStats :: LiveStats
  wsRef :: "nat option"
  sockets :: "WebSocket list"
  timers :: nat
  token :: "jsstring option"

text \<open>
  \<open>String.prototype.toLowerCase\<close> on the letters \<open>A\<close> to \<open>Z\<close>.  Other code units are left
  as they are, which is exact on ASCII strings; the result is only compared with
  \<open>'running'\<close>, and no string with a code unit outside ASCII has that lower case.
\<close>

definition toLowerCase :: "jsstring \<Rightarrow> jsstring" where
  "toLowerCase s = map (\<lambda>c. if 0x41 \<le> c \<and> c \<le> 0x5A then c + 0x20 else c) s"

text \<open>\<open>const isServerActive = server?.state?.toLowerCase() === 'running'\<close>\<close>

definition isServerActive :: "Console \<Rightarrow> bool" where
  "isServerActive c =
     (case server c of None \<Rightarrow> False | Some s \<Rightarrow> toLowerCase (state s) = js ''running'')"

subsection \<open>Opening and closing the connection\<close>

text \<open>
  \<open>initWebSocket\<close>: without a token only the error is set; otherwise the socket of
  \<open>wsRef.current\<close>, if any, is closed and a new connecting socket becomes \<open>wsRef.current\<close>.
  (The URL is taken to be one that \<open>new WebSocket\<close> accepts.)
\<close>

definition initWebSocket :: "Console \<Rightarrow> Console" where
  "initWebSocket c =
     (if token c = None \<or> token c = Some [] then
        c\<lparr>error := Some (js ''Authentication token not found'')\<rparr>
      else
        let closed = (case wsRef c of
                        None \<Rightarrow> sockets c
                      | Some i \<Rightarrow> (sockets c)[i := ws_close (sockets c ! i)])
        in c\<lparr>sockets := closed @ [\<lparr>readyState = CONNECTING, transmitted = []\<rparr>],
             wsRef := Some (length closed)\<rparr>)"

text \<open>The cleanup of the effect: \<open>if (wsRef.current) wsRef.current.close()\<close>.\<close>

definition cleanup :: "Console \<Rightarrow> Console" where
  "cleanup c =
     (case wsRef c of
        None \<Rightarrow> c
      | Some i \<Rightarrow> c\<lparr>sockets := (sockets c)[i := ws_close (sockets c ! i)]\<rparr>)"

text \<open>\<open>ws.onopen\<close> of socket \<open>i\<close>, run when the host has opened it.\<close>

definition onopen :: "nat \<Rightarrow> Console \<Rightarrow> Console" where
  "onopen i c =
     c\<lparr>sockets := (sockets c)[i := (sockets c ! i)\<lparr>readyState := OPEN\<rparr>],
       connected := True, error := None\<rparr>"

text \<open>
  \<open>ws.onclose\<close> of socket \<open>i\<close>, run when the host has closed it: \<open>setConnected(false)\<close> and
  a new timeout of five seconds.
\<close>

definition onclose :: "nat \<Rightarrow> Console \<Rightarrow> Console" where
  "onclose i c =
     c\<lparr>sockets := (sockets c)[i := (sockets c ! i)\<lparr>readyState := CLOSED\<rparr>],
       connected := False, timers := timers c + 1\<rparr>"

text \<open>\<open>ws.onerror\<close>\<close>

definition onerror :: "Console \<Rightarrow> Console" where
  "onerror c = c\<lparr>error := Some (js ''We're having trouble connecting to your server...'')\<rparr>"

text \<open>
  The callback of the timeout:
  \<open>if (!wsRef.current || wsRef.current.readyState === WebSocket.CLOSED) initWebSocket(serverData)\<close>.
\<close>

definition timeoutCallback :: "Console \<Rightarrow> Console" where
  "timeoutCallback c =
     (let c1 = c\<lparr>timers := timers c - 1\<rparr>
      in case wsRef c1 of
           None \<Rightarrow> initWebSocket c1
         | Some i \<Rightarrow>
             if readyState (sockets c1 ! i) = CLOSED then initWebSocket c1 else c1)"

subsection \<open>The message handler\<close>

definition orZero :: "jsnum \<Rightarrow> jsnum" where
  "orZero x = (if x = Num 0 \<or> x = NaN then Num 0 else x)"

text \<open>The \<open>switch\<close> of \<open>ws.onmessage\<close> on the parsed message.\<close>

definition dispatch :: "ConsoleMessage \<Rightarrow> Console \<Rightarrow> Console" where
  "dispatch msg c =
     (if event msg = js ''console_output'' then
        (case message (data msg) of
           Some m \<Rightarrow> c\<lparr>messages := messages c @ [m]\<rparr>
         | None \<Rightarrow> c)
      else if event msg = js ''auth_success'' then
        (case logs (data msg) of
           Some ls \<Rightarrow> c\<lparr>messages := ls\<rparr>
         | None \<Rightarrow> c)
      else if event msg = js ''stats'' then
        (let c1 = (case cpu_percent (data msg) of
                     Some cpu \<Rightarrow>
                       c\<lparr>liveStats :=
                           \<lparr>cpuPercent = orZero cpu,
                            stats_memory =
                              (case memory (data msg) of
                                 Some m \<Rightarrow> m
                               | None \<Rightarrow> \<lparr>used = Num 0, limit = Num 0, percent = Num 0\<rparr>),
                            stats_network =
                              (case network (data msg) of
                                 Some n \<Rightarrow> \<lparr>rxBytes = rx_bytes n, txBytes = tx_bytes n\<rparr>
                               | None \<Rightarrow> \<lparr>rxBytes = Num 0, txBytes = Num 0\<rparr>)\<rparr>\<rparr>
                   | None \<Rightarrow> c)
         in case data_state (data msg) of
              Some s \<Rightarrow>
                if s \<noteq> [] then c1\<lparr>server := map_option (\<lambda>prev. prev\<lparr>state := s\<rparr>) (server c1)\<rparr>
                else c1
            | None \<Rightarrow> c1)
      else if event msg = js ''power_status'' then
        (case status (data msg) of
           Some st \<Rightarrow> c\<lparr>messages := messages c @ [st], powerLoading := False\<rparr>
         | None \<Rightarrow> c\<lparr>powerLoading := False\<rparr>)
      else if event msg = js ''error'' then
        (let errorMsg = (case message (data msg) of
                           Some m \<Rightarrow> if m \<noteq> [] then m else js ''An unknown error occurred''
                         | None \<Rightarrow> js ''An unknown error occurred'')
         in c\<lparr>error := Some errorMsg,
              messages := messages c @ [js ''Error: '' @ errorMsg],
              powerLoading := False\<rparr>)
      else c)"

text \<open>
  \<open>ws.onmessage\<close>.  \<open>JSON_parse\<close> stands for \<open>JSON.parse\<close> with the type the code gives its
  result: it returns a \<open>ConsoleMessage\<close> or throws \<open>SyntaxError\<close>.  The handler has no
  \<open>try\<close>, so what \<open>JSON.parse\<close> throws leaves the handler (\<open>Inl\<close>); this happens before
  any state setter has run.
\<close>

definition onmessage ::
  "(jsstring \<Rightarrow> js_exception + ConsoleMessage) \<Rightarrow> jsstring \<Rightarrow> Console \<Rightarrow> js_exception + Console"
  where
  "onmessage JSON_parse raw c =
     (case JSON_parse raw of
        Inl e \<Rightarrow> Inl e
      | Inr msg \<Rightarrow> Inr (dispatch msg c))"

text \<open>
  One inbound frame as the host delivers it: the state afterwards, and the exception the
  host reports as uncaught, if the handler threw one.
\<close>

definition deliver ::
  "(jsstring \<Rightarrow> js_exception + ConsoleMessage) \<Rightarrow> jsstring \<Rightarrow> Console
     \<Rightarrow> Console \<times> js_exception option" where
  "deliver JSON_parse raw c =
     (case onmessage JSON_parse raw c of
        Inl e \<Rightarrow> (c, Some e)
      | Inr c' \<Rightarrow> (c', None))"

text \<open>A sequence of parsed messages, dispatched in arrival order.\<close>

fun dispatchAll :: "ConsoleMessage list \<Rightarrow> Console \<Rightarrow> Console" where
  "dispatchAll [] c = c"
| "dispatchAll (msg # msgs) c = dispatchAll msgs (dispatch msg c)"

definition replacesLog :: "ConsoleMessage \<Rightarrow> bool" where
  "replacesLog msg = (event msg = js ''auth_success'' \<and> logs (data msg) \<noteq> None)"

subsection \<open>Commands and power actions\<close>






text \<open>\<open>handlePowerAction\<close>, the click handler of the three power buttons.\<close>

definition handlePowerAction :: "powerAction \<Rightarrow> Console \<Rightarrow> Console" where
  "handlePowerAction act c =
     (if server c = None \<or> powerLoading c \<or> wsRef c = None then c
      else
        (let c1 = c\<lparr>powerLoading := True\<rparr>
         in case ws_send (PowerAction act) (sockets c1 ! the (wsRef c1)) of
              Inr ws \<Rightarrow> c1\<lparr>sockets := (sockets c1)[the (wsRef c1) := ws]\<rparr>
            | Inl e \<Rightarrow> c1\<lparr>error := Some (exceptionMessage e), powerLoading := False\<rparr>))"

text \<open>
  The \<open>disabled\<close> attribute of the buttons: start is \<open>powerLoading || isServerActive\<close>,
  restart and stop are \<open>powerLoading || !isServerActive\<close>.  A disabled button runs no click
  handler.
\<close>

definition powerButtonDisabled :: "powerAction \<Rightarrow> Console \<Rightarrow> bool" where
  "powerButtonDisabled act c =
     (case act of
        Start \<Rightarrow> powerLoading c \<or> isServerActive c
      | _ \<Rightarrow> powerLoading c \<or> \<not> isServerActive c)"

definition clickPowerButton :: "powerAction \<Rightarrow> Console \<Rightarrow> Console" where
  "clickPowerButton act c = (if powerButtonDisabled act c then c else handlePowerAction act c)"

subsection \<open>Sample states\<close>

text \<open>
  A page whose server is stopped, with an open socket and no power action pending; the same
  page with the server running; and one with a blank command typed.
\<close>

definition stoppedConsole :: Console where
  "stoppedConsole =
     \<lparr>server = Some \<lparr>internalId = js ''a1b2'', name = js ''demo'', state = js ''stopped''\<rparr>,
      error = None, messages = [], command = js ''help'', connected = True,
      powerLoading = False,
      liveStats = \<lparr>cpuPercent = Num 0,
                   stats_memory = \<lparr>used = Num 0, limit = Num 0, percent = Num 0\<rparr>,
                   stats_network = \<lparr>rxBytes = Num 0, txBytes = Num 0\<rparr>\<rparr>,
      wsRef = Some 0, sockets = [\<lparr>readyState = OPEN, transmitted = []\<rparr>], timers = 0,
      token = Some (js ''secret'')\<rparr>"

definition runningConsole :: Console where
  "runningConsole =
     stoppedConsole\<lparr>server :=
       Some \<lparr>internalId = js ''a1b2'', name = js ''demo'', state = js ''running''\<rparr>\<rparr>"


definition emptyData :: ConsoleData where
  "emptyData =
     \<lparr>message = None, status = None, data_state = None, logs = None, action = None,
      cpu_percent = None, memory = None, network = None\<rparr>"

text \<open>Three parsed messages.\<close>

definition outputMessage :: ConsoleMessage where
  "outputMessage = \<lparr>event = js ''console_output'', data = emptyData\<lparr>message := Some (js ''Done'')\<rparr>\<rparr>"

definition errorMessage :: ConsoleMessage where
  "errorMessage = \<lparr>event = js ''error'', data = emptyData\<rparr>"

definition authMessage :: ConsoleMessage where
  "authMessage = \<lparr>event = js ''auth_success'', data = emptyData\<lparr>logs := Some [js ''old'']\<rparr>\<rparr>"

section \<open>What the formatter is measured against\<close>

text \<open>
  An escape sequence, in the words of the specification, is the introducer (ESC followed
  by \<open>[\<close>), a code body and the terminator \<open>m\<close> that ends it.  \<open>afterSequence cs\<close> is the
  input behind the sequence whose introducer has just been read, when \<open>cs\<close> holds a
  terminator.
\<close>

definition afterSequence :: "jsstring \<Rightarrow> jsstring" where
  "afterSequence cs = drop 1 (dropWhile (\<lambda>c. c \<noteq> LETTER_m) cs)"

definition codeBody :: "jsstring \<Rightarrow> jsstring" where
  "codeBody cs = takeWhile (\<lambda>c. c \<noteq> LETTER_m) cs"

definition introducerAt :: "jschar \<Rightarrow> jsstring \<Rightarrow> bool" where
  "introducerAt c cs = (c = ESC \<and> cs \<noteq> [] \<and> hd cs = LBRACKET)"

lemma length_afterSequence: "length (afterSequence cs) \<le> length cs"
proof -
  have "length (dropWhile (\<lambda>c. c \<noteq> LETTER_m) cs) \<le> length cs"
    by (rule length_dropWhile_le)
  then show ?thesis
    by (simp add: afterSequence_def)
qed

text \<open>The input with every escape sequence removed.\<close>

function stripEscapes :: "jsstring \<Rightarrow> jsstring" where
  "stripEscapes [] = []"
| "stripEscapes (c # cs) =
     (if introducerAt c cs \<and> LETTER_m \<in> set (tl cs) then stripEscapes (afterSequence (tl cs))
      else c # stripEscapes cs)"
  by pat_completeness auto
termination
proof (relation "measure length")
  fix c :: jschar and cs :: jsstring
  have "length (afterSequence (tl cs)) \<le> length (tl cs)"
    by (rule length_afterSequence)
  then show "(afterSequence (tl cs), c # cs) \<in> measure length"
    by simp
qed simp_all

text \<open>Every introducer of the input, read from the left, has its terminator.\<close>

function wellFormed :: "jsstring \<Rightarrow> bool" where
  "wellFormed [] = True"
| "wellFormed (c # cs) =
     (if introducerAt c cs
      then (if LETTER_m \<in> set (tl cs) then wellFormed (afterSequence (tl cs)) else False)
      else wellFormed cs)"
  by pat_completeness auto
termination
proof (relation "measure length")
  fix c :: jschar and cs :: jsstring
  have "length (afterSequence (tl cs)) \<le> length (tl cs)"
    by (rule length_afterSequence)
  then show "(afterSequence (tl cs), c # cs) \<in> measure length"
    by simp
qed simp_all

text \<open>
  A style without its colour values: the three flags, and which of the two colours are set.
  A span without its colour values: its text and that.
\<close>

definition styleShape :: "SpanStyle \<Rightarrow> bool \<times> bool \<times> bool \<times> bool \<times> bool" where
  "styleShape st =
     (fontWeight st, fontStyle st, textDecoration st, color st \<noteq> None,
      backgroundColor st \<noteq> None)"

definition uncolored :: "Span \<Rightarrow> jsstring \<times> bool \<times> bool \<times> bool \<times> bool \<times> bool" where
  "uncolored s = (span_text s, styleShape (span_style s))"

section \<open>The loops as functions of the remaining input\<close>

text \<open>
  \<open>scanFrom upd rest result currentSpan\<close> is the outer loop started with \<open>rest\<close> still to
  read, where \<open>upd\<close> turns the style and a code body into the new style.
\<close>

function scanFrom ::
  "(SpanStyle \<Rightarrow> jsstring \<Rightarrow> SpanStyle) \<Rightarrow> jsstring \<Rightarrow> Span list \<Rightarrow> Span \<Rightarrow> Span list \<times> Span"
  where
  "scanFrom upd [] result currentSpan = (result, currentSpan)"
| "scanFrom upd (c # cs) result currentSpan =
     (if introducerAt c cs then
        (if span_text currentSpan \<noteq> [] then
           scanFrom upd (afterSequence (tl cs)) (result @ [currentSpan])
             \<lparr>span_text = [], span_style = upd (span_style currentSpan) (codeBody (tl cs))\<rparr>
         else
           scanFrom upd (afterSequence (tl cs)) result
             (currentSpan\<lparr>span_style := upd (span_style currentSpan) (codeBody (tl cs))\<rparr>))
      else scanFrom upd cs result (currentSpan\<lparr>span_text := span_text currentSpan @ [c]\<rparr>))"
  by pat_completeness auto
termination
proof (relation "measure (\<lambda>(upd, rest, result, currentSpan). length rest)")
  fix c :: jschar and cs :: jsstring
  have le: "length (afterSequence (tl cs)) \<le> length (tl cs)"
    by (rule length_afterSequence)
  fix upd :: "SpanStyle \<Rightarrow> jsstring \<Rightarrow> SpanStyle" and result :: "Span list" and currentSpan :: Span
  from le show "((upd, afterSequence (tl cs), result @ [currentSpan],
        \<lparr>span_text = [], span_style = upd (span_style currentSpan) (codeBody (tl cs))\<rparr>),
      upd, c # cs, result, currentSpan)
    \<in> measure (\<lambda>(upd, rest, result, currentSpan). length rest)"
    by simp
  from le show "((upd, afterSequence (tl cs), result,
        currentSpan\<lparr>span_style := upd (span_style currentSpan) (codeBody (tl cs))\<rparr>),
      upd, c # cs, result, currentSpan)
    \<in> measure (\<lambda>(upd, rest, result, currentSpan). length rest)"
    by simp
qed simp_all

definition finish :: "Span list \<times> Span \<Rightarrow> Span list" where
  "finish p = (if span_text (snd p) \<noteq> [] then fst p @ [snd p] else fst p)"

text \<open>The style updates of one escape sequence in the two components.\<close>

definition plainUpd :: "SpanStyle \<Rightarrow> jsstring \<Rightarrow> SpanStyle" where
  "plainUpd st body = applyCodes st (map Number (split SEMICOLON body))"

definition themedUpd :: "SpanStyle \<Rightarrow> jsstring \<Rightarrow> SpanStyle" where
  "themedUpd st body = applyCodes_themed st (map Number (split SEMICOLON body))"

text \<open>The line \<open>"\u001b[32mOK\u001b[0m done"\<close>.\<close>

definition okDoneLine :: jsstring where
  "okDoneLine = [ESC] @ js ''[32mOK'' @ [ESC] @ js ''[0m done''"

subsection \<open>The source loops and the loop over the remaining input agree\<close>

lemma collectCode_eq:
  "collectCode input position code =
     (position + length (codeBody (drop position input)), code @ codeBody (drop position input))"
proof (induction input position code rule: collectCode.induct)
  case (1 input position code)
  show ?case
  proof (cases "position < length input")
    case False
    then show ?thesis
      by (subst collectCode.simps) (simp add: codeBody_def)
  next
    case True
    then have d: "drop position input = input ! position # drop (position + 1) input"
      by (simp add: Cons_nth_drop_Suc)
    show ?thesis
    proof (cases "input ! position = LETTER_m")
      case True
      with d show ?thesis
        by (subst collectCode.simps) (simp add: codeBody_def)
    next
      case False
      with True "1.IH" d show ?thesis
        by (subst collectCode.simps) (simp add: codeBody_def)
    qed
  qed
qed

lemma drop_after_code:
  "drop (Suc (Suc (Suc (position + length (codeBody (drop (Suc (Suc position)) input)))))) input
     = afterSequence (drop (Suc (Suc position)) input)"
proof -
  have "afterSequence (drop (Suc (Suc position)) input)
      = drop 1 (drop (length (codeBody (drop (Suc (Suc position)) input)))
          (drop (Suc (Suc position)) input))"
    by (simp add: afterSequence_def codeBody_def dropWhile_eq_drop)
  then show ?thesis
    by (simp add: add.commute)
qed

lemma parseLoop_scanFrom:
  "parseLoop input position result currentSpan
     = scanFrom plainUpd (drop position input) result currentSpan"
proof (induction input position result currentSpan rule: parseLoop.induct)
  case (1 input position result currentSpan)
  show ?case
  proof (cases "position < length input")
    case False
    then show ?thesis
      by (subst parseLoop.simps) simp
  next
    case inside: True
    then have d: "drop position input = input ! position # drop (position + 1) input"
      by (simp add: Cons_nth_drop_Suc)
    have intro: "introducerAt (input ! position) (drop (position + 1) input)
        \<longleftrightarrow> input ! position = ESC \<and> position + 1 < length input
            \<and> input ! (position + 1) = LBRACKET"
      by (auto simp: introducerAt_def hd_drop_conv_nth)
    have tl: "tl (drop (position + 1) input) = drop (position + 2) input"
      by (simp add: drop_Suc tl_drop)
    show ?thesis
    proof (cases "introducerAt (input ! position) (drop (position + 1) input)")
      case False
      with inside intro "1.IH"(2) d show ?thesis
        by (subst parseLoop.simps) auto
    next
      case True
      with intro have c: "input ! position = ESC \<and> position + 1 < length input
            \<and> input ! (position + 1) = LBRACKET" by simp
      note ih = "1.IH"(1) [OF inside c refl refl refl refl refl]
      have tl': "tl (drop (Suc position) input) = drop (Suc (Suc position)) input"
        by (simp add: drop_Suc tl_drop)
      from True c have intro': "introducerAt ESC (drop (Suc position) input)"
        by simp
      show ?thesis
        apply (subst parseLoop.simps)
        apply (simp only: d scanFrom.simps True if_True inside c Let_def)
        apply (simp only: ih [unfolded Let_def])
        apply (simp add: collectCode_eq drop_after_code tl' intro' plainUpd_def)
        done
    qed
  qed
qed


lemma parseLoop_themed_scanFrom:
  "parseLoop_themed input position result currentSpan
     = scanFrom themedUpd (drop position input) result currentSpan"
proof (induction input position result currentSpan rule: parseLoop_themed.induct)
  case (1 input position result currentSpan)
  show ?case
  proof (cases "position < length input")
    case False
    then show ?thesis
      by (subst parseLoop_themed.simps) simp
  next
    case inside: True
    then have d: "drop position input = input ! position # drop (position + 1) input"
      by (simp add: Cons_nth_drop_Suc)
    have intro: "introducerAt (input ! position) (drop (position + 1) input)
        \<longleftrightarrow> input ! position = ESC \<and> position + 1 < length input
            \<and> input ! (position + 1) = LBRACKET"
      by (auto simp: introducerAt_def hd_drop_conv_nth)
    have tl: "tl (drop (position + 1) input) = drop (position + 2) input"
      by (simp add: drop_Suc tl_drop)
    show ?thesis
    proof (cases "introducerAt (input ! position) (drop (position + 1) input)")
      case False
      with inside intro "1.IH"(2) d show ?thesis
        by (subst parseLoop_themed.simps) auto
    next
      case True
      with intro have c: "input ! position = ESC \<and> position + 1 < length input
            \<and> input ! (position + 1) = LBRACKET" by simp
      note ih = "1.IH"(1) [OF inside c refl refl refl refl refl]
      have tl': "tl (drop (Suc position) input) = drop (Suc (Suc position)) input"
        by (simp add: drop_Suc tl_drop)
      from True c have intro': "introducerAt ESC (drop (Suc position) input)"
        by simp
      show ?thesis
        apply (subst parseLoop_themed.simps)
        apply (simp only: d scanFrom.simps True if_True inside c Let_def)
        apply (simp only: ih [unfolded Let_def])
        apply (simp add: collectCode_eq drop_after_code tl' intro' themedUpd_def)
        done
    qed
  qed
qed


lemma parseAnsi_scan:
  "parseAnsi input
     = finish (scanFrom plainUpd input [] \<lparr>span_text = [], span_style = emptyStyle\<rparr>)"
  by (simp add: parseAnsi_def parseLoop_scanFrom finish_def split: prod.split)

lemma parseAnsi_themed_scan:
  "parseAnsi_themed input
     = finish (scanFrom themedUpd input [] \<lparr>span_text = [], span_style = emptyStyle\<rparr>)"
  by (simp add: parseAnsi_themed_def parseLoop_themed_scanFrom finish_def split: prod.split)

subsection \<open>Properties of the loop over the remaining input\<close>

lemma texts_finish:
  "concat (map span_text (finish p)) = concat (map span_text (fst p)) @ span_text (snd p)"
  by (simp add: finish_def)

lemma scanFrom_texts:
  "wellFormed rest \<Longrightarrow>
   concat (map span_text (fst (scanFrom upd rest result currentSpan)))
       @ span_text (snd (scanFrom upd rest result currentSpan))
     = concat (map span_text result) @ span_text currentSpan @ stripEscapes rest"
proof (induction upd rest result currentSpan rule: scanFrom.induct)
  case (1 upd result currentSpan)
  show ?case by simp
next
  case (2 upd c cs result currentSpan)
  show ?case
  proof (cases "introducerAt c cs")
    case False
    with "2.prems" "2.IH"(3) show ?thesis by simp
  next
    case True
    with "2.prems" have m: "LETTER_m \<in> set (tl cs)" and wf: "wellFormed (afterSequence (tl cs))"
      by (simp_all split: if_splits)
    show ?thesis
    proof (cases "span_text currentSpan = []")
      case True
      with \<open>introducerAt c cs\<close> m "2.IH"(2) [OF _ _ wf] show ?thesis by simp
    next
      case False
      with \<open>introducerAt c cs\<close> m "2.IH"(1) [OF _ _ wf] show ?thesis by simp
    qed
  qed
qed

lemma dropWhile_terminator:
  "LETTER_m \<in> set cs \<Longrightarrow> \<exists>ds. dropWhile (\<lambda>c. c \<noteq> LETTER_m) cs = LETTER_m # ds"
  by (induction cs) auto

lemma dropWhile_no_terminator:
  "LETTER_m \<notin> set cs \<Longrightarrow> dropWhile (\<lambda>c. c \<noteq> LETTER_m) cs = []"
  by (induction cs) auto

lemma afterSequence_append:
  "LETTER_m \<in> set cs \<Longrightarrow> afterSequence (cs @ sfx) = afterSequence cs @ sfx"
proof -
  assume m: "LETTER_m \<in> set cs"
  then obtain ds where ds: "dropWhile (\<lambda>c. c \<noteq> LETTER_m) cs = LETTER_m # ds"
    using dropWhile_terminator by blast
  from m have "dropWhile (\<lambda>c. c \<noteq> LETTER_m) (cs @ sfx)
      = dropWhile (\<lambda>c. c \<noteq> LETTER_m) cs @ sfx"
    by (simp add: dropWhile_append1)
  with ds show ?thesis
    by (simp add: afterSequence_def)
qed

lemma codeBody_append:
  "LETTER_m \<in> set cs \<Longrightarrow> codeBody (cs @ sfx) = codeBody cs"
  by (simp add: codeBody_def takeWhile_append1)

lemma introducerAt_append:
  "sfx = [] \<or> hd sfx \<noteq> LBRACKET \<Longrightarrow> introducerAt c (cs @ sfx) = introducerAt c cs"
  by (cases cs) (auto simp: introducerAt_def)

lemma scanFrom_append:
  "wellFormed pre \<Longrightarrow> sfx = [] \<or> hd sfx \<noteq> LBRACKET \<Longrightarrow>
   scanFrom upd (pre @ sfx) result currentSpan
     = scanFrom upd sfx (fst (scanFrom upd pre result currentSpan))
         (snd (scanFrom upd pre result currentSpan))"
proof (induction upd pre result currentSpan rule: scanFrom.induct)
  case (1 upd result currentSpan)
  show ?case by simp
next
  case (2 upd c cs result currentSpan)
  note sfx = \<open>sfx = [] \<or> hd sfx \<noteq> LBRACKET\<close>
  show ?case
  proof (cases "introducerAt c cs")
    case False
    with "2.prems" "2.IH"(3) show ?thesis
      by (simp add: introducerAt_append)
  next
    case True
    with "2.prems" have m: "LETTER_m \<in> set (tl cs)" and wf: "wellFormed (afterSequence (tl cs))"
      by (simp_all split: if_splits)
    from True have ne: "cs \<noteq> []" by (simp add: introducerAt_def)
    then have tl: "tl (cs @ sfx) = tl cs @ sfx" by simp
    show ?thesis
    proof (cases "span_text currentSpan = []")
      case True
      with \<open>introducerAt c cs\<close> m sfx "2.IH"(2) [OF _ _ wf sfx] show ?thesis
        by (simp add: introducerAt_append tl afterSequence_append codeBody_append)
    next
      case False
      with \<open>introducerAt c cs\<close> m sfx "2.IH"(1) [OF _ _ wf sfx] show ?thesis
        by (simp add: introducerAt_append tl afterSequence_append codeBody_append)
    qed
  qed
qed

lemma scanFrom_unterminated:
  "LETTER_m \<notin> set rest \<Longrightarrow>
   finish (scanFrom upd (ESC # LBRACKET # rest) result currentSpan) = finish (result, currentSpan)"
proof -
  assume "LETTER_m \<notin> set rest"
  then have "afterSequence rest = []"
    by (simp add: afterSequence_def dropWhile_no_terminator del: dropWhile_eq_Nil_conv)
  then show ?thesis
    by (simp add: introducerAt_def finish_def)
qed

lemma scanFrom_uncolored:
  assumes upd: "\<And>st1 st2 body.
      styleShape st1 = styleShape st2 \<Longrightarrow> styleShape (upd1 st1 body) = styleShape (upd2 st2 body)"
    and res: "map uncolored result1 = map uncolored result2"
    and cur: "uncolored cur1 = uncolored cur2"
  shows "map uncolored (fst (scanFrom upd1 rest result1 cur1))
       = map uncolored (fst (scanFrom upd2 rest result2 cur2))
   \<and> uncolored (snd (scanFrom upd1 rest result1 cur1))
       = uncolored (snd (scanFrom upd2 rest result2 cur2))"
  using res cur
proof (induction rest arbitrary: result1 result2 cur1 cur2 rule: length_induct)
  case (1 rest)
  note ih = "1.IH" [rule_format]
  from "1.prems"(2) have tx: "span_text cur1 = span_text cur2"
    and sh: "styleShape (span_style cur1) = styleShape (span_style cur2)"
    by (simp_all add: uncolored_def)
  show ?case
  proof (cases rest)
    case Nil
    with "1.prems" show ?thesis by simp
  next
    case (Cons c cs)
    show ?thesis
    proof (cases "introducerAt c cs")
      case False
      have "uncolored (cur1\<lparr>span_text := span_text cur1 @ [c]\<rparr>)
          = uncolored (cur2\<lparr>span_text := span_text cur2 @ [c]\<rparr>)"
        using tx sh by (simp add: uncolored_def)
      from ih [of cs, OF _ "1.prems"(1) this] False Cons show ?thesis by simp
    next
      case True
      note u = upd [OF sh, of "codeBody (tl cs)"]
      have "length (afterSequence (tl cs)) \<le> length (tl cs)"
        by (rule length_afterSequence)
      with Cons have less: "length (afterSequence (tl cs)) < length rest"
        by simp
      show ?thesis
      proof (cases "span_text cur1 = []")
        case True
        have "uncolored (cur1\<lparr>span_style := upd1 (span_style cur1) (codeBody (tl cs))\<rparr>)
            = uncolored (cur2\<lparr>span_style := upd2 (span_style cur2) (codeBody (tl cs))\<rparr>)"
          using u tx by (simp add: uncolored_def)
        from ih [OF less "1.prems"(1) this] True tx \<open>introducerAt c cs\<close> Cons
        show ?thesis by simp
      next
        case False
        have r: "map uncolored (result1 @ [cur1]) = map uncolored (result2 @ [cur2])"
          using "1.prems" by simp
        have "uncolored \<lparr>span_text = [], span_style = upd1 (span_style cur1) (codeBody (tl cs))\<rparr>
            = uncolored \<lparr>span_text = [], span_style = upd2 (span_style cur2) (codeBody (tl cs))\<rparr>"
          using u by (simp add: uncolored_def)
        from ih [OF less r this] False tx \<open>introducerAt c cs\<close> Cons
        show ?thesis by simp
      qed
    qed
  qed
qed

lemma applyCode_shape:
  "styleShape st1 = styleShape st2
   \<Longrightarrow> styleShape (applyCode st1 code) = styleShape (applyCode_themed st2 code)"
  by (simp add: styleShape_def applyCode_def applyCode_themed_def)

lemma applyCodes_shape:
  "styleShape st1 = styleShape st2
   \<Longrightarrow> styleShape (applyCodes st1 codes) = styleShape (applyCodes_themed st2 codes)"
proof (induction codes arbitrary: st1 st2)
  case Nil
  then show ?case by simp
next
  case (Cons code codes)
  from Cons.IH [OF applyCode_shape [OF Cons.prems]] show ?case by simp
qed

lemma sequence_parts:
  "LETTER_m \<in> set cs \<Longrightarrow> cs = codeBody cs @ LETTER_m # afterSequence cs"
proof -
  assume "LETTER_m \<in> set cs"
  then obtain ds where ds: "dropWhile (\<lambda>c. c \<noteq> LETTER_m) cs = LETTER_m # ds"
    using dropWhile_terminator by blast
  have "cs = takeWhile (\<lambda>c. c \<noteq> LETTER_m) cs @ dropWhile (\<lambda>c. c \<noteq> LETTER_m) cs"
    by simp
  with ds show ?thesis
    by (simp add: codeBody_def afterSequence_def)
qed

lemma afterSequence_codeBody:
  "afterSequence (codeBody cs @ LETTER_m # rest) = rest"
proof -
  have "\<And>x. x \<in> set (takeWhile (\<lambda>c. c \<noteq> LETTER_m) cs) \<Longrightarrow> x \<noteq> LETTER_m"
    by (auto dest: set_takeWhileD)
  then have "dropWhile (\<lambda>c. c \<noteq> LETTER_m) (codeBody cs @ LETTER_m # rest) = LETTER_m # rest"
    by (simp add: codeBody_def dropWhile_append2)
  then show ?thesis
    by (simp add: afterSequence_def)
qed

lemma malformed_shape:
  "\<not> wellFormed input \<Longrightarrow>
   \<exists>pre rest. input = pre @ ESC # LBRACKET # rest \<and> wellFormed pre \<and> LETTER_m \<notin> set rest"
proof (induction input rule: wellFormed.induct)
  case 1
  then show ?case by simp
next
  case (2 c cs)
  show ?case
  proof (cases "introducerAt c cs")
    case False
    with "2.prems" have "\<not> wellFormed cs" by simp
    from "2.IH"(2) [OF False this] obtain pre rest
      where cs: "cs = pre @ ESC # LBRACKET # rest" and wf: "wellFormed pre"
        and m: "LETTER_m \<notin> set rest"
      by blast
    from False cs have "\<not> introducerAt c pre"
      by (cases pre) (auto simp: introducerAt_def)
    with wf have "wellFormed (c # pre)" by simp
    with cs m show ?thesis
      by (intro exI [of _ "c # pre"] exI [of _ rest]) simp
  next
    case True
    then have c: "c = ESC" and cs: "cs = LBRACKET # tl cs"
      by (cases cs; simp add: introducerAt_def)+
    show ?thesis
    proof (cases "LETTER_m \<in> set (tl cs)")
      case False
      with c cs show ?thesis
        by (intro exI [of _ "[]"] exI [of _ "tl cs"]) simp
    next
      case m: True
      with True "2.prems" have "\<not> wellFormed (afterSequence (tl cs))" by simp
      from "2.IH"(1) [OF True m this] obtain pre rest
        where after: "afterSequence (tl cs) = pre @ ESC # LBRACKET # rest"
          and wf: "wellFormed pre" and r: "LETTER_m \<notin> set rest"
        by blast
      let ?pre = "ESC # LBRACKET # codeBody (tl cs) @ LETTER_m # pre"
      from sequence_parts [OF m] after
      have "tl cs = codeBody (tl cs) @ LETTER_m # pre @ ESC # LBRACKET # rest"
        by simp
      with c cs have "c # cs = ?pre @ ESC # LBRACKET # rest"
        by simp
      moreover have "wellFormed ?pre"
        using wf by (simp add: introducerAt_def afterSequence_codeBody)
      ultimately show ?thesis
        using r by blast
    qed
  qed
qed


lemma parseAnsi_texts:
  "wellFormed input \<Longrightarrow> concat (map span_text (parseAnsi input)) = stripEscapes input"
  using scanFrom_texts [of input plainUpd "[]" "\<lparr>span_text = [], span_style = emptyStyle\<rparr>"]
  by (simp add: parseAnsi_scan texts_finish)

lemma finish_uncolored:
  "map uncolored (fst p) = map uncolored (fst q) \<Longrightarrow> uncolored (snd p) = uncolored (snd q) \<Longrightarrow>
   map uncolored (finish p) = map uncolored (finish q)"
  by (simp add: finish_def uncolored_def)

lemma uncolored_text: "map span_text spans = map fst (map uncolored spans)"
  by (simp add: uncolored_def comp_def)

subsection \<open>Facts about the sample line and the palette\<close>

lemma okDoneLine_wellFormed: "wellFormed okDoneLine"
  by (simp add: okDoneLine_def js_def ESC_def LBRACKET_def LETTER_m_def introducerAt_def
      afterSequence_def)

lemma okDoneLine_stripped: "stripEscapes okDoneLine = js ''OK done''"
  by (simp add: okDoneLine_def js_def ESC_def LBRACKET_def LETTER_m_def introducerAt_def
      afterSequence_def)

lemma okDoneLine_parsed:
  "parseAnsi okDoneLine =
     [\<lparr>span_text = js ''OK'', span_style = emptyStyle\<lparr>color := Some (Literal ''#b5cea8'')\<rparr>\<rparr>,
      \<lparr>span_text = js '' done'', span_style = emptyStyle\<rparr>]"
  by code_simp

lemma code_cases_30:
  "(n::int) \<in> {30..37} \<Longrightarrow>
   n = 30 \<or> n = 31 \<or> n = 32 \<or> n = 33 \<or> n = 34 \<or> n = 35 \<or> n = 36 \<or> n = 37"
  by (simp add: atLeastAtMost_iff) arith

lemma code_cases_90:
  "(n::int) \<in> {90..97} \<Longrightarrow>
   n = 90 \<or> n = 91 \<or> n = 92 \<or> n = 93 \<or> n = 94 \<or> n = 95 \<or> n = 96 \<or> n = 97"
  by (simp add: atLeastAtMost_iff) arith

lemmas applyCode_unfold =
  applyCode_def strictEq_def greaterEq_def lessEq_def subtract_def paletteAt_def ANSI_COLORS_def

lemma applyCode_30:
  "n \<in> {30..37} \<Longrightarrow>
   applyCode st (Num (of_int n))
     = st\<lparr>color := map_option Literal (map_of ANSI_COLORS (nat (n - 30)))\<rparr>
   \<and> map_of ANSI_COLORS (nat (n - 30)) \<noteq> None"
proof -
  assume "n \<in> {30..37}"
  from code_cases_30 [OF this] show ?thesis
    by (elim disjE) (simp_all add: applyCode_unfold)
qed

lemma applyCode_90:
  "n \<in> {90..97} \<Longrightarrow>
   applyCode st (Num (of_int n))
     = st\<lparr>color := map_option Literal (map_of ANSI_COLORS (nat (n - 82)))\<rparr>
   \<and> map_of ANSI_COLORS (nat (n - 82)) \<noteq> None"
proof -
  assume "n \<in> {90..97}"
  from code_cases_90 [OF this] show ?thesis
    by (elim disjE) (simp_all add: applyCode_unfold)
qed


lemma split_zero_first:
  "split SEMICOLON (js ''0;'' @ body) = js ''0'' # split SEMICOLON body"
  by (simp add: js_def SEMICOLON_def split: list.split) 

lemma Number_zero: "Number (js ''0'') = Num 0"
  by code_simp

section \<open>Properties of the formatter\<close>

text \<open>
  C4.  For every input line whose escape sequences are all well formed (each introducer is
  followed by a code body and its terminator), the concatenation of the text fields of the
  segments returned by \<open>parseAnsi\<close> is the input with all escape sequences removed.
\<close>

theorem parseAnsi_round_trip:
  "wellFormed input \<Longrightarrow> concat (map span_text (parseAnsi input)) = stripEscapes input"
  using scanFrom_texts [of input plainUpd "[]" "\<lparr>span_text = [], span_style = emptyStyle\<rparr>"]
  by (simp add: parseAnsi_scan texts_finish)

theorem parseAnsi_round_trip_witness:
  "wellFormed okDoneLine \<and> concat (map span_text (parseAnsi okDoneLine)) = js ''OK done''"
  using parseAnsi_round_trip [of okDoneLine] okDoneLine_wellFormed okDoneLine_stripped
  by simp

text \<open>
  C7.  Formatting \<open>"\u001b[32mOK\u001b[0m done"\<close> yields exactly two segments, \<open>OK\<close> with the
  green foreground colour (palette slot 2) and \<open>" done"\<close> with the empty style; every code
  \<open>30..37\<close> sets the foreground to palette slot \<open>code - 30\<close> and every code \<open>90..97\<close> sets
  it to palette slot \<open>code - 82\<close>, and these slots exist.
\<close>

theorem parseAnsi_foreground_colors:
  "parseAnsi okDoneLine =
     [\<lparr>span_text = js ''OK'', span_style = emptyStyle\<lparr>color := Some (Literal ''#b5cea8'')\<rparr>\<rparr>,
      \<lparr>span_text = js '' done'', span_style = emptyStyle\<rparr>]
   \<and> map_of ANSI_COLORS 2 = Some ''#b5cea8''
   \<and> (\<forall>n \<in> {30..37}.
        applyCode st (Num (of_int n))
          = st\<lparr>color := map_option Literal (map_of ANSI_COLORS (nat (n - 30)))\<rparr>
        \<and> map_of ANSI_COLORS (nat (n - 30)) \<noteq> None)
   \<and> (\<forall>n \<in> {90..97}.
        applyCode st (Num (of_int n))
          = st\<lparr>color := map_option Literal (map_of ANSI_COLORS (nat (n - 82)))\<rparr>
        \<and> map_of ANSI_COLORS (nat (n - 82)) \<noteq> None)"
proof (intro conjI ballI)
  show "parseAnsi okDoneLine =
     [\<lparr>span_text = js ''OK'', span_style = emptyStyle\<lparr>color := Some (Literal ''#b5cea8'')\<rparr>\<rparr>,
      \<lparr>span_text = js '' done'', span_style = emptyStyle\<rparr>]"
    by (rule okDoneLine_parsed)
  show "map_of ANSI_COLORS 2 = Some ''#b5cea8''"
    by (simp add: ANSI_COLORS_def)
next
  fix n :: int
  assume "n \<in> {30..37}"
  from applyCode_30 [OF this, of st]
  show "applyCode st (Num (of_int n))
          = st\<lparr>color := map_option Literal (map_of ANSI_COLORS (nat (n - 30)))\<rparr>"
    and "map_of ANSI_COLORS (nat (n - 30)) \<noteq> None"
    by simp_all
next
  fix n :: int
  assume "n \<in> {90..97}"
  from applyCode_90 [OF this, of st]
  show "applyCode st (Num (of_int n))
          = st\<lparr>color := map_option Literal (map_of ANSI_COLORS (nat (n - 82)))\<rparr>"
    and "map_of ANSI_COLORS (nat (n - 82)) \<noteq> None"
    by simp_all
qed

theorem parseAnsi_foreground_colors_witness:
  "(31::int) \<in> {30..37} \<and> (97::int) \<in> {90..97}
   \<and> applyCode emptyStyle (Num 31) = emptyStyle\<lparr>color := Some (Literal ''#d16969'')\<rparr>
   \<and> applyCode emptyStyle (Num 97) = emptyStyle\<lparr>color := Some (Literal ''#ffffff'')\<rparr>"
proof -
  note t = parseAnsi_foreground_colors [of emptyStyle]
  have a: "(31::int) \<in> {30..37}" and b: "(97::int) \<in> {90..97}"
    by simp_all
  from t have "\<forall>n \<in> {30..37}. applyCode emptyStyle (Num (of_int n))
      = emptyStyle\<lparr>color := map_option Literal (map_of ANSI_COLORS (nat (n - 30)))\<rparr>
        \<and> map_of ANSI_COLORS (nat (n - 30)) \<noteq> None"
    by blast
  from bspec [OF this a]
  have 1: "applyCode emptyStyle (Num 31) = emptyStyle\<lparr>color := Some (Literal ''#d16969'')\<rparr>"
    by (simp add: ANSI_COLORS_def)
  from t have "\<forall>n \<in> {90..97}. applyCode emptyStyle (Num (of_int n))
      = emptyStyle\<lparr>color := map_option Literal (map_of ANSI_COLORS (nat (n - 82)))\<rparr>
        \<and> map_of ANSI_COLORS (nat (n - 82)) \<noteq> None"
    by blast
  from bspec [OF this b]
  have 2: "applyCode emptyStyle (Num 97) = emptyStyle\<lparr>color := Some (Literal ''#ffffff'')\<rparr>"
    by (simp add: ANSI_COLORS_def)
  from a b 1 2 show ?thesis by blast
qed

text \<open>
  C8.  For every carried style \<open>S\<close> and every code list that begins with \<open>0\<close>, applying the
  list to \<open>S\<close> gives the style that the remaining codes give from the empty style; the
  same holds for a code body that begins with \<open>0;\<close>.
\<close>

theorem applyCodes_reset_first:
  "applyCodes S (Num 0 # codes) = applyCodes emptyStyle codes
   \<and> plainUpd S (js ''0;'' @ body) = plainUpd emptyStyle body"
  by (simp add: applyCode_def strictEq_def plainUpd_def split_zero_first Number_zero)

text \<open>
  C9.  \<open>parseAnsi\<close> is a total function (both loops terminate on every input).  When an
  introducer has no terminator behind it, the result is the list of segments of the input
  before that introducer: everything from the introducer on is consumed as code body and
  none of it is emitted as text.  Every input that is not well formed has this shape.
\<close>

theorem parseAnsi_unterminated:
  "(wellFormed pre \<and> LETTER_m \<notin> set rest \<longrightarrow>
      parseAnsi (pre @ ESC # LBRACKET # rest) = parseAnsi pre
      \<and> concat (map span_text (parseAnsi (pre @ ESC # LBRACKET # rest))) = stripEscapes pre)
   \<and> (\<not> wellFormed input \<longrightarrow>
        (\<exists>before after. input = before @ ESC # LBRACKET # after \<and> wellFormed before
           \<and> LETTER_m \<notin> set after \<and> parseAnsi input = parseAnsi before))"
proof -
  let ?init = "\<lparr>span_text = [], span_style = emptyStyle\<rparr>"
  have cut: "parseAnsi (p @ ESC # LBRACKET # r) = parseAnsi p"
    if wf: "wellFormed p" and m: "LETTER_m \<notin> set r" for p r
  proof -
    have "ESC # LBRACKET # r = [] \<or> hd (ESC # LBRACKET # r) \<noteq> LBRACKET"
      by (simp add: ESC_def LBRACKET_def)
    from scanFrom_append [OF wf this, of plainUpd "[]" ?init]
    have "parseAnsi (p @ ESC # LBRACKET # r)
        = finish (scanFrom plainUpd (ESC # LBRACKET # r)
            (fst (scanFrom plainUpd p [] ?init)) (snd (scanFrom plainUpd p [] ?init)))"
      by (simp add: parseAnsi_scan)
    also have "\<dots> = finish (fst (scanFrom plainUpd p [] ?init), snd (scanFrom plainUpd p [] ?init))"
      by (rule scanFrom_unterminated [OF m])
    also have "\<dots> = parseAnsi p"
      by (simp add: parseAnsi_scan)
    finally show ?thesis .
  qed
  show ?thesis
  proof (intro conjI impI)
    assume "wellFormed pre \<and> LETTER_m \<notin> set rest"
    then have wf: "wellFormed pre" and m: "LETTER_m \<notin> set rest"
      by simp_all
    from cut [OF wf m] show "parseAnsi (pre @ ESC # LBRACKET # rest) = parseAnsi pre" .
    then show "concat (map span_text (parseAnsi (pre @ ESC # LBRACKET # rest))) = stripEscapes pre"
      by (simp add: parseAnsi_texts [OF wf])
  next
    assume "\<not> wellFormed input"
    from malformed_shape [OF this] obtain before after
      where "input = before @ ESC # LBRACKET # after" and "wellFormed before"
        and "LETTER_m \<notin> set after"
      by blast
    with cut [of before after]
    show "\<exists>before after. input = before @ ESC # LBRACKET # after \<and> wellFormed before
           \<and> LETTER_m \<notin> set after \<and> parseAnsi input = parseAnsi before"
      by blast
  qed
qed

theorem parseAnsi_unterminated_witness:
  "wellFormed okDoneLine \<and> LETTER_m \<notin> set (js ''1;3'')
   \<and> parseAnsi (okDoneLine @ ESC # LBRACKET # js ''1;3'') = parseAnsi okDoneLine
   \<and> concat (map span_text (parseAnsi (okDoneLine @ ESC # LBRACKET # js ''1;3''))) = js ''OK done''
   \<and> \<not> wellFormed (ESC # LBRACKET # js ''1;3'')
   \<and> (\<exists>before after. ESC # LBRACKET # js ''1;3'' = before @ ESC # LBRACKET # after
         \<and> wellFormed before \<and> LETTER_m \<notin> set after
         \<and> parseAnsi (ESC # LBRACKET # js ''1;3'') = parseAnsi before)"
proof -
  have m: "LETTER_m \<notin> set (js ''1;3'')"
    by (simp add: js_def LETTER_m_def)
  have n: "\<not> wellFormed (ESC # LBRACKET # js ''1;3'')"
    by (simp add: js_def LETTER_m_def introducerAt_def)
  note t = parseAnsi_unterminated [of okDoneLine "js ''1;3''" "ESC # LBRACKET # js ''1;3''"]
  from t okDoneLine_wellFormed m
  have a: "parseAnsi (okDoneLine @ ESC # LBRACKET # js ''1;3'') = parseAnsi okDoneLine"
    and "concat (map span_text (parseAnsi (okDoneLine @ ESC # LBRACKET # js ''1;3'')))
      = stripEscapes okDoneLine"
    by blast+
  then have b: "concat (map span_text (parseAnsi (okDoneLine @ ESC # LBRACKET # js ''1;3'')))
      = js ''OK done''"
    by (simp only: okDoneLine_stripped)
  from t n
  have c: "\<exists>before after. ESC # LBRACKET # js ''1;3'' = before @ ESC # LBRACKET # after
         \<and> wellFormed before \<and> LETTER_m \<notin> set after
         \<and> parseAnsi (ESC # LBRACKET # js ''1;3'') = parseAnsi before"
    by blast
  from okDoneLine_wellFormed m a b n c show ?thesis
    by (intro conjI)
qed

text \<open>
  C10.  For every input the two components return segment lists of the same length, with
  the same texts, the same bold, italic and underline flags and the same colours set; only
  the values of the colours differ.
\<close>

theorem parseAnsi_themed_same_shape:
  "map uncolored (parseAnsi input) = map uncolored (parseAnsi_themed input)
   \<and> length (parseAnsi input) = length (parseAnsi_themed input)
   \<and> map span_text (parseAnsi input) = map span_text (parseAnsi_themed input)"
proof -
  let ?init = "\<lparr>span_text = [], span_style = emptyStyle\<rparr>"
  let ?p = "scanFrom plainUpd input [] ?init" and ?t = "scanFrom themedUpd input [] ?init"
  have shape: "\<And>st1 st2 body. styleShape st1 = styleShape st2
      \<Longrightarrow> styleShape (plainUpd st1 body) = styleShape (themedUpd st2 body)"
    by (simp add: plainUpd_def themedUpd_def applyCodes_shape)
  have both: "map uncolored (fst ?p) = map uncolored (fst ?t)
      \<and> uncolored (snd ?p) = uncolored (snd ?t)"
    by (rule scanFrom_uncolored [OF shape]) simp_all
  have "map uncolored (finish ?p) = map uncolored (finish ?t)"
    by (rule finish_uncolored [OF conjunct1 [OF both] conjunct2 [OF both]])
  then have u: "map uncolored (parseAnsi input) = map uncolored (parseAnsi_themed input)"
    by (simp only: parseAnsi_scan parseAnsi_themed_scan)
  from u have l: "length (parseAnsi input) = length (parseAnsi_themed input)"
    by (rule map_eq_imp_length_eq)
  from u have t: "map span_text (parseAnsi input) = map span_text (parseAnsi_themed input)"
    by (simp only: uncolored_text)
  from u l t show ?thesis by blast
qed


section \<open>Properties of the console page\<close>

subsection \<open>Shared facts\<close>


lemma not_running_states:
  "server c = Some s \<Longrightarrow> state s = js ''stopped'' \<or> state s = js ''installing''
   \<Longrightarrow> \<not> isServerActive c"
  by (auto simp: isServerActive_def toLowerCase_def js_def)

lemma running_active: "isServerActive runningConsole"
  by (simp add: isServerActive_def runningConsole_def stoppedConsole_def toLowerCase_def js_def)






lemma dispatch_appends:
  "\<not> replacesLog msg \<Longrightarrow>
   messages (dispatch msg c) = messages c
   \<or> (\<exists>line. messages (dispatch msg c) = messages c @ [line])"
  by (auto simp: dispatch_def replacesLog_def Let_def split: option.split)

lemma dispatch_prefix: "\<not> replacesLog msg \<Longrightarrow> prefix (messages c) (messages (dispatch msg c))"
  using dispatch_appends [of msg c] by (auto simp: prefix_def)

lemma dispatchAll_prefix:
  "\<forall>msg \<in> set msgs. \<not> replacesLog msg \<Longrightarrow> prefix (messages c) (messages (dispatchAll msgs c))"
proof (induction msgs arbitrary: c)
  case Nil
  show ?case by simp
next
  case (Cons msg msgs)
  then have "prefix (messages c) (messages (dispatch msg c))"
    and "prefix (messages (dispatch msg c)) (messages (dispatchAll msgs (dispatch msg c)))"
    by (simp_all add: dispatch_prefix)
  then show ?case
    by (auto intro: prefix_order.trans)
qed

text \<open>The handlers, case by case.\<close>

lemma handlePowerAction_guard:
  "server c = None \<or> powerLoading c \<or> wsRef c = None \<Longrightarrow> handlePowerAction act c = c"
  by (auto simp: handlePowerAction_def)

lemma handlePowerAction_connecting:
  "server c \<noteq> None \<Longrightarrow> \<not> powerLoading c \<Longrightarrow> wsRef c = Some i \<Longrightarrow>
   readyState (sockets c ! i) = CONNECTING \<Longrightarrow>
   handlePowerAction act c
     = c\<lparr>error := Some (exceptionMessage InvalidStateError), powerLoading := False\<rparr>"
  by (auto simp: handlePowerAction_def ws_send_def)

lemma handlePowerAction_closed:
  "server c \<noteq> None \<Longrightarrow> \<not> powerLoading c \<Longrightarrow> wsRef c = Some i \<Longrightarrow>
   readyState (sockets c ! i) = CLOSING \<or> readyState (sockets c ! i) = CLOSED \<Longrightarrow>
   handlePowerAction act c = c\<lparr>powerLoading := True\<rparr>"
  by (auto simp: handlePowerAction_def ws_send_def)

lemma handlePowerAction_open:
  "server c \<noteq> None \<Longrightarrow> \<not> powerLoading c \<Longrightarrow> wsRef c = Some i \<Longrightarrow>
   readyState (sockets c ! i) = OPEN \<Longrightarrow>
   handlePowerAction act c
     = c\<lparr>powerLoading := True,
         sockets := (sockets c)[i := (sockets c ! i)
           \<lparr>transmitted := transmitted (sockets c ! i) @ [PowerAction act]\<rparr>]\<rparr>"
  by (auto simp: handlePowerAction_def ws_send_def)

lemma clickPowerButton_guard:
  "server c = None \<or> powerLoading c \<or> wsRef c = None \<Longrightarrow> clickPowerButton act c = c"
  by (simp add: clickPowerButton_def handlePowerAction_guard)




subsection \<open>Power actions\<close>

text \<open>
  C1.  A power action is requested by a click on one of the three buttons, whose \<open>disabled\<close>
  attribute is the lifecycle gate in front of \<open>handlePowerAction\<close>.  With the server stopped,
  a request to stop is rejected: no handler runs, the state is unchanged and no frame is
  transmitted; a request to start, with no power action pending and the socket open,
  transmits exactly one \<open>power_action\<close> frame and sets \<open>powerLoading\<close>.  In general start is
  rejected while the server is running, stop and restart are rejected while it is not, and
  every request is rejected while a power action is pending.  \<open>handlePowerAction\<close> itself
  returns without any change when no server is loaded, a power action is pending or there
  is no socket; otherwise it sets \<open>powerLoading\<close> and sends the frame of its action on an open
  socket, sets the error and clears \<open>powerLoading\<close> on a connecting one, and only sets
  \<open>powerLoading\<close> on a closing or closed one.
\<close>

theorem power_buttons_gate_lifecycle:
  "(\<not> isServerActive c \<longrightarrow>
      clickPowerButton Stop c = c \<and> clickPowerButton Restart c = c
      \<and> (server c \<noteq> None \<and> \<not> powerLoading c \<and> wsRef c = Some i \<and> i < length (sockets c)
           \<and> readyState (sockets c ! i) = OPEN \<longrightarrow>
         clickPowerButton Start c
           = c\<lparr>powerLoading := True,
               sockets := (sockets c)[i := (sockets c ! i)
                 \<lparr>transmitted := transmitted (sockets c ! i) @ [PowerAction Start]\<rparr>]\<rparr>))
   \<and> (isServerActive c \<longrightarrow> clickPowerButton Start c = c)
   \<and> (powerLoading c \<longrightarrow> clickPowerButton act c = c)
   \<and> (server c = Some s \<and> (state s = js ''stopped'' \<or> state s = js ''installing'')
        \<longrightarrow> \<not> isServerActive c)
   \<and> (server c \<noteq> None \<and> \<not> powerLoading c \<and> wsRef c = Some i \<and> i < length (sockets c)
           \<and> readyState (sockets c ! i) = OPEN \<longrightarrow>
         handlePowerAction act c
           = c\<lparr>powerLoading := True,
               sockets := (sockets c)[i := (sockets c ! i)
                 \<lparr>transmitted := transmitted (sockets c ! i) @ [PowerAction act]\<rparr>]\<rparr>)
   \<and> (server c = Some s \<and> state s = js ''stopped'' \<and> \<not> powerLoading c \<and> wsRef c = Some i
        \<and> i < length (sockets c) \<and> readyState (sockets c ! i) = OPEN \<longrightarrow>
         clickPowerButton Stop c = c
         \<and> clickPowerButton Start c
           = c\<lparr>powerLoading := True,
               sockets := (sockets c)[i := (sockets c ! i)
                 \<lparr>transmitted := transmitted (sockets c ! i) @ [PowerAction Start]\<rparr>]\<rparr>)
   \<and> (server c = None \<or> powerLoading c \<or> wsRef c = None \<longrightarrow>
         handlePowerAction act c = c \<and> clickPowerButton act c = c)
   \<and> (server c \<noteq> None \<and> \<not> powerLoading c \<and> wsRef c = Some i
        \<and> readyState (sockets c ! i) = CONNECTING \<longrightarrow>
         handlePowerAction act c
           = c\<lparr>error := Some (exceptionMessage InvalidStateError), powerLoading := False\<rparr>)
   \<and> (server c \<noteq> None \<and> \<not> powerLoading c \<and> wsRef c = Some i
        \<and> (readyState (sockets c ! i) = CLOSING \<or> readyState (sockets c ! i) = CLOSED) \<longrightarrow>
         handlePowerAction act c = c\<lparr>powerLoading := True\<rparr>)"
proof -
  have stopped: "server c = Some s \<and> (state s = js ''stopped'' \<or> state s = js ''installing'')
      \<longrightarrow> \<not> isServerActive c"
    using not_running_states by blast
  have loading: "powerLoading c \<longrightarrow> clickPowerButton act c = c"
    by (simp add: clickPowerButton_guard)
  have opened: "server c \<noteq> None \<and> \<not> powerLoading c \<and> wsRef c = Some i
      \<and> i < length (sockets c) \<and> readyState (sockets c ! i) = OPEN \<longrightarrow>
         handlePowerAction a c
           = c\<lparr>powerLoading := True,
               sockets := (sockets c)[i := (sockets c ! i)
                 \<lparr>transmitted := transmitted (sockets c ! i) @ [PowerAction a]\<rparr>]\<rparr>" for a
    using handlePowerAction_open by blast
  have off: "\<not> isServerActive c \<longrightarrow> clickPowerButton Stop c = c \<and> clickPowerButton Restart c = c"
    by (simp add: clickPowerButton_def powerButtonDisabled_def)
  have start_click: "\<not> isServerActive c \<and> \<not> powerLoading c
      \<longrightarrow> clickPowerButton Start c = handlePowerAction Start c"
    by (simp add: clickPowerButton_def powerButtonDisabled_def)
  have on: "isServerActive c \<longrightarrow> clickPowerButton Start c = c"
    by (simp add: clickPowerButton_def powerButtonDisabled_def)
  have guard: "server c = None \<or> powerLoading c \<or> wsRef c = None \<longrightarrow>
         handlePowerAction act c = c \<and> clickPowerButton act c = c"
    using handlePowerAction_guard clickPowerButton_guard by blast
  have connecting: "server c \<noteq> None \<and> \<not> powerLoading c \<and> wsRef c = Some i
        \<and> readyState (sockets c ! i) = CONNECTING \<longrightarrow>
         handlePowerAction act c
           = c\<lparr>error := Some (exceptionMessage InvalidStateError), powerLoading := False\<rparr>"
    using handlePowerAction_connecting by blast
  have closed: "server c \<noteq> None \<and> \<not> powerLoading c \<and> wsRef c = Some i
        \<and> (readyState (sockets c ! i) = CLOSING \<or> readyState (sockets c ! i) = CLOSED) \<longrightarrow>
         handlePowerAction act c = c\<lparr>powerLoading := True\<rparr>"
    using handlePowerAction_closed by blast
  have scenario: "server c = Some s \<and> state s = js ''stopped'' \<and> \<not> powerLoading c
        \<and> wsRef c = Some i \<and> i < length (sockets c) \<and> readyState (sockets c ! i) = OPEN \<longrightarrow>
         clickPowerButton Stop c = c
         \<and> clickPowerButton Start c
           = c\<lparr>powerLoading := True,
               sockets := (sockets c)[i := (sockets c ! i)
                 \<lparr>transmitted := transmitted (sockets c ! i) @ [PowerAction Start]\<rparr>]\<rparr>"
  proof
    assume h: "server c = Some s \<and> state s = js ''stopped'' \<and> \<not> powerLoading c
        \<and> wsRef c = Some i \<and> i < length (sockets c) \<and> readyState (sockets c ! i) = OPEN"
    with stopped have n: "\<not> isServerActive c" by blast
    from h have "server c \<noteq> None" by simp
    with h n off start_click opened [of Start]
    show "clickPowerButton Stop c = c
         \<and> clickPowerButton Start c
           = c\<lparr>powerLoading := True,
               sockets := (sockets c)[i := (sockets c ! i)
                 \<lparr>transmitted := transmitted (sockets c ! i) @ [PowerAction Start]\<rparr>]\<rparr>"
      by simp
  qed
  have start_off: "\<not> isServerActive c \<longrightarrow>
      (server c \<noteq> None \<and> \<not> powerLoading c \<and> wsRef c = Some i \<and> i < length (sockets c)
           \<and> readyState (sockets c ! i) = OPEN \<longrightarrow>
         clickPowerButton Start c
           = c\<lparr>powerLoading := True,
               sockets := (sockets c)[i := (sockets c ! i)
                 \<lparr>transmitted := transmitted (sockets c ! i) @ [PowerAction Start]\<rparr>]\<rparr>)"
    using start_click opened [of Start] by simp
  from off start_off on loading stopped opened [of act] scenario guard connecting closed
  show ?thesis
    by (intro conjI impI) blast+
qed

theorem power_buttons_gate_lifecycle_witness:
  "server stoppedConsole = Some (the (server stoppedConsole))
   \<and> state (the (server stoppedConsole)) = js ''stopped''
   \<and> \<not> isServerActive stoppedConsole \<and> isServerActive runningConsole
   \<and> clickPowerButton Stop stoppedConsole = stoppedConsole
   \<and> clickPowerButton Restart stoppedConsole = stoppedConsole
   \<and> sockets (clickPowerButton Start stoppedConsole)
       = [\<lparr>readyState = OPEN, transmitted = [PowerAction Start]\<rparr>]
   \<and> powerLoading (clickPowerButton Start stoppedConsole)
   \<and> clickPowerButton Start runningConsole = runningConsole
   \<and> server (stoppedConsole\<lparr>server := None\<rparr>) = None
   \<and> handlePowerAction Start (stoppedConsole\<lparr>server := None\<rparr>) = stoppedConsole\<lparr>server := None\<rparr>"
proof -
  note s = power_buttons_gate_lifecycle [of stoppedConsole 0 Start "the (server stoppedConsole)"]
  note r = power_buttons_gate_lifecycle [of runningConsole 0 Start "the (server runningConsole)"]
  note n = power_buttons_gate_lifecycle
    [of "stoppedConsole\<lparr>server := None\<rparr>" 0 Start "the (server stoppedConsole)"]
  have sv: "server stoppedConsole = Some (the (server stoppedConsole))"
    and st: "state (the (server stoppedConsole)) = js ''stopped''"
    by (simp_all add: stoppedConsole_def)
  have pre: "\<not> powerLoading stoppedConsole
      \<and> wsRef stoppedConsole = Some 0 \<and> 0 < length (sockets stoppedConsole)
      \<and> readyState (sockets stoppedConsole ! 0) = OPEN"
    by (simp add: stoppedConsole_def)
  from s sv st have na: "\<not> isServerActive stoppedConsole"
    by blast
  from s na have a: "clickPowerButton Stop stoppedConsole = stoppedConsole"
    and b: "clickPowerButton Restart stoppedConsole = stoppedConsole"
    by blast+
  from s sv st pre
  have "clickPowerButton Start stoppedConsole
      = stoppedConsole\<lparr>powerLoading := True,
          sockets := (sockets stoppedConsole)[0 := (sockets stoppedConsole ! 0)
            \<lparr>transmitted := transmitted (sockets stoppedConsole ! 0) @ [PowerAction Start]\<rparr>]\<rparr>"
    by blast
  then have c: "sockets (clickPowerButton Start stoppedConsole)
       = [\<lparr>readyState = OPEN, transmitted = [PowerAction Start]\<rparr>]"
    and d: "powerLoading (clickPowerButton Start stoppedConsole)"
    by (simp_all add: stoppedConsole_def)
  from r running_active have e: "clickPowerButton Start runningConsole = runningConsole"
    by blast
  have f: "server (stoppedConsole\<lparr>server := None\<rparr>) = None"
    by simp
  with n have g: "handlePowerAction Start (stoppedConsole\<lparr>server := None\<rparr>)
      = stoppedConsole\<lparr>server := None\<rparr>"
    by blast
  from sv st na running_active a b c d e f g show ?thesis
    by (intro conjI)
qed

subsection \<open>Commands\<close>




subsection \<open>Inbound frames\<close>

text \<open>
  C2, as the code has it.  When \<open>JSON.parse\<close> throws on a frame, no state is changed, and
  the exception leaves \<open>ws.onmessage\<close>: the handler has no \<open>try\<close>.
\<close>

theorem onmessage_parse_failure:
  "JSON_parse raw = Inl e \<Longrightarrow>
   onmessage JSON_parse raw c = Inl e \<and> deliver JSON_parse raw c = (c, Some e)"
  by (simp add: onmessage_def deliver_def)

theorem onmessage_parse_failure_witness:
  "(\<lambda>raw. Inl SyntaxError :: js_exception + ConsoleMessage) (js ''not json'') = Inl SyntaxError
   \<and> onmessage (\<lambda>raw. Inl SyntaxError) (js ''not json'') stoppedConsole = Inl SyntaxError
   \<and> deliver (\<lambda>raw. Inl SyntaxError) (js ''not json'') stoppedConsole
       = (stoppedConsole, Some SyntaxError)"
  using onmessage_parse_failure [of "\<lambda>raw. Inl SyntaxError" "js ''not json''" SyntaxError stoppedConsole]
  by simp

text \<open>
  C6.  A dispatched message that is not an \<open>auth_success\<close> with \<open>logs\<close> leaves the log as it
  is or appends one line to its end; an \<open>auth_success\<close> with \<open>logs\<close> replaces the log by the
  given list; so over any sequence of messages without such a replacement, the log at the
  start is a prefix of the log at the end.
\<close>

theorem dispatch_log_append_only:
  "(\<not> replacesLog msg \<longrightarrow>
      messages (dispatch msg c) = messages c
      \<or> (\<exists>line. messages (dispatch msg c) = messages c @ [line]))
   \<and> (replacesLog msg \<longrightarrow> messages (dispatch msg c) = the (logs (data msg)))
   \<and> ((\<forall>m \<in> set msgs. \<not> replacesLog m) \<longrightarrow>
        prefix (messages c) (messages (dispatchAll msgs c)))"
proof (intro conjI impI)
  assume "\<not> replacesLog msg"
  then show "messages (dispatch msg c) = messages c
      \<or> (\<exists>line. messages (dispatch msg c) = messages c @ [line])"
    by (rule dispatch_appends)
next
  assume "replacesLog msg"
  then show "messages (dispatch msg c) = the (logs (data msg))"
    by (auto simp: dispatch_def replacesLog_def js_def)
next
  assume "\<forall>m \<in> set msgs. \<not> replacesLog m"
  then show "prefix (messages c) (messages (dispatchAll msgs c))"
    by (rule dispatchAll_prefix)
qed


theorem dispatch_log_append_only_witness:
  "\<not> replacesLog outputMessage \<and> \<not> replacesLog errorMessage \<and> replacesLog authMessage
   \<and> messages (dispatch outputMessage (stoppedConsole\<lparr>messages := [js ''first'']\<rparr>))
       = [js ''first'', js ''Done'']
   \<and> messages (dispatch authMessage (stoppedConsole\<lparr>messages := [js ''first'']\<rparr>))
       = [js ''old'']
   \<and> prefix [js ''first'']
        (messages (dispatchAll [outputMessage, errorMessage]
           (stoppedConsole\<lparr>messages := [js ''first'']\<rparr>)))"
proof -
  let ?c = "stoppedConsole\<lparr>messages := [js ''first'']\<rparr>"
  have n1: "\<not> replacesLog outputMessage" and n2: "\<not> replacesLog errorMessage"
    and y: "replacesLog authMessage"
    by (simp_all add: replacesLog_def outputMessage_def errorMessage_def authMessage_def
        emptyData_def js_def)
  have a: "messages (dispatch outputMessage ?c) = [js ''first'', js ''Done'']"
    by (simp add: dispatch_def outputMessage_def emptyData_def stoppedConsole_def)
  from dispatch_log_append_only [of authMessage ?c "[]"] y
  have "messages (dispatch authMessage ?c) = the (logs (data authMessage))"
    by blast
  then have b: "messages (dispatch authMessage ?c) = [js ''old'']"
    by (simp add: authMessage_def emptyData_def)
  from n1 n2 have "\<forall>m \<in> set [outputMessage, errorMessage]. \<not> replacesLog m"
    by simp
  with dispatch_log_append_only [of outputMessage ?c "[outputMessage, errorMessage]"]
  have "prefix (messages ?c) (messages (dispatchAll [outputMessage, errorMessage] ?c))"
    by blast
  then have c: "prefix [js ''first''] (messages (dispatchAll [outputMessage, errorMessage] ?c))"
    by (simp add: stoppedConsole_def)
  from n1 n2 y a b c show ?thesis
    by (intro conjI)
qed

subsection \<open>Closing the connection\<close>

text \<open>
  C3, as the code has it.  The cleanup closes the socket of \<open>wsRef.current\<close> and cancels no
  timeout.  When the host then closes the socket, \<open>ws.onclose\<close> sets a new timeout, and its
  callback finds \<open>wsRef.current\<close> closed and calls \<open>initWebSocket\<close>: with a token in place, a
  new connecting socket is made and becomes \<open>wsRef.current\<close>.  The same happens when the
  socket had closed, and the timeout was pending, before the cleanup ran.
\<close>

theorem reconnect_after_cleanup:
  "wsRef c = Some i \<and> i < length (sockets c) \<and> token c = Some t \<and> t \<noteq> [] \<longrightarrow>
     timers (cleanup c) = timers c
     \<and> wsRef (timeoutCallback (onclose i (cleanup c))) = Some (length (sockets c))
     \<and> sockets (timeoutCallback (onclose i (cleanup c)))
         = (sockets c)[i := (sockets c ! i)\<lparr>readyState := CLOSED\<rparr>]
             @ [\<lparr>readyState = CONNECTING, transmitted = []\<rparr>]
     \<and> sockets (timeoutCallback (cleanup (onclose i c)))
         = (sockets c)[i := (sockets c ! i)\<lparr>readyState := CLOSED\<rparr>]
             @ [\<lparr>readyState = CONNECTING, transmitted = []\<rparr>]"
  by (auto simp: cleanup_def onclose_def timeoutCallback_def initWebSocket_def ws_close_def Let_def
      split: readyState.split)

theorem reconnect_after_cleanup_witness:
  "wsRef stoppedConsole = Some 0 \<and> 0 < length (sockets stoppedConsole)
   \<and> token stoppedConsole = Some (js ''secret'') \<and> js ''secret'' \<noteq> []
   \<and> sockets (cleanup stoppedConsole) = [\<lparr>readyState = CLOSING, transmitted = []\<rparr>]
   \<and> timers (onclose 0 (cleanup stoppedConsole)) = 1
   \<and> wsRef (timeoutCallback (onclose 0 (cleanup stoppedConsole))) = Some 1
   \<and> sockets (timeoutCallback (onclose 0 (cleanup stoppedConsole)))
       = [\<lparr>readyState = CLOSED, transmitted = []\<rparr>, \<lparr>readyState = CONNECTING, transmitted = []\<rparr>]
   \<and> sockets (timeoutCallback (cleanup (onclose 0 stoppedConsole)))
       = [\<lparr>readyState = CLOSED, transmitted = []\<rparr>, \<lparr>readyState = CONNECTING, transmitted = []\<rparr>]"
proof -
  have pre: "wsRef stoppedConsole = Some 0 \<and> 0 < length (sockets stoppedConsole)
      \<and> token stoppedConsole = Some (js ''secret'') \<and> js ''secret'' \<noteq> []"
    by (simp add: stoppedConsole_def js_def)
  have a: "sockets (cleanup stoppedConsole) = [\<lparr>readyState = CLOSING, transmitted = []\<rparr>]"
    and b: "timers (onclose 0 (cleanup stoppedConsole)) = 1"
    by (simp_all add: cleanup_def onclose_def ws_close_def stoppedConsole_def)
  from reconnect_after_cleanup [of stoppedConsole 0 "js ''secret''"] pre
  have "wsRef (timeoutCallback (onclose 0 (cleanup stoppedConsole)))
        = Some (length (sockets stoppedConsole))"
    and "sockets (timeoutCallback (onclose 0 (cleanup stoppedConsole)))
         = (sockets stoppedConsole)[0 := (sockets stoppedConsole ! 0)\<lparr>readyState := CLOSED\<rparr>]
             @ [\<lparr>readyState = CONNECTING, transmitted = []\<rparr>]"
    and "sockets (timeoutCallback (cleanup (onclose 0 stoppedConsole)))
         = (sockets stoppedConsole)[0 := (sockets stoppedConsole ! 0)\<lparr>readyState := CLOSED\<rparr>]
             @ [\<lparr>readyState = CONNECTING, transmitted = []\<rparr>]"
    by blast+
  then have c: "wsRef (timeoutCallback (onclose 0 (cleanup stoppedConsole))) = Some 1"
    and d: "sockets (timeoutCallback (onclose 0 (cleanup stoppedConsole)))
       = [\<lparr>readyState = CLOSED, transmitted = []\<rparr>, \<lparr>readyState = CONNECTING, transmitted = []\<rparr>]"
    and e: "sockets (timeoutCallback (cleanup (onclose 0 stoppedConsole)))
       = [\<lparr>readyState = CLOSED, transmitted = []\<rparr>, \<lparr>readyState = CONNECTING, transmitted = []\<rparr>]"
    by (simp_all add: stoppedConsole_def)
  from pre a b c d e show ?thesis
    by (intro conjI) simp_all
qed


end
